theory Spec2Isabelle
  imports Complex_Main "HOL-Library.Log_Nat" "HOL-Library.AList"
begin

text \<open>
  A model of \<open>update-manager.js\<close>, the \<open>UpdateManager\<close> class of SquadJS: the registry of
  plugins, the comparison of versions, the lookup of the latest release, the
  backup-download-write-verify transaction, the check of one plugin and of a repository
  group, the scheduling of a cycle, and the cycle summary.

  \<^item> The static fields of the class are one record, passed through every method.
  \<^item> Everything outside the class (HTTP, the file system, the clock, the notifier) is
    a parameter: a record of functions on a world of any type. A call that throws
    returns the thrown value; \<open>try\<close>/\<open>catch\<close> is a combinator.
  \<^item> An \<open>async\<close> method runs to its end without interleaving with another; the
    callbacks given to \<open>setTimeout\<close> and \<open>setInterval\<close> are recorded, not run.
  \<^item> Console output (\<open>this.log\<close>) is left out.
  \<^item> Names, versions, owners, repositories and paths are strings, a version may also
    be absent; a caller passing another kind of value is outside the model.
\<close>

section \<open>JavaScript values used by the update manager\<close>

text \<open>
  A JavaScript string is modelled as a \<^typ>\<open>string\<close>: each \<^typ>\<open>char\<close> stands for the
  UTF-16 code unit of the same code (0 to 255). A value that may be \<open>null\<close> or
  \<open>undefined\<close> is an \<^typ>\<open>'a option\<close>.

  A JavaScript number is an IEEE double. The finite doubles are rationals; the two
  zeros are identified (the program only compares numbers and tests them for
  truthiness, and neither tells \<open>-0\<close> from \<open>0\<close>). \<open>Number(string)\<close> gives the double
  nearest to the value the string denotes, as V8 computes it.
\<close>

datatype number = NaN | NegInfinity | Finite rat | PosInfinity

subsection \<open>Rounding a rational to the nearest double\<close>

definition pow2 :: "int \<Rightarrow> rat" where
  "pow2 i = (if 0 \<le> i then 2 ^ nat i else 1 / 2 ^ nat (- i))"

definition pow10 :: "int \<Rightarrow> rat" where
  "pow10 i = (if 0 \<le> i then 10 ^ nat i else 1 / 10 ^ nat (- i))"

definition floor_log2 :: "rat \<Rightarrow> int" where
  "floor_log2 a =
     (let (p, q) = quotient_of a; k = bitlen p - bitlen q
      in if pow2 k \<le> a then k else k - 1)"

definition round_half_even :: "rat \<Rightarrow> int" where
  "round_half_even y =
     (let f = \<lfloor>y\<rfloor>; d = y - of_int f
      in if d < 1 / 2 then f else if 1 / 2 < d then f + 1 else if even f then f else f + 1)"

text \<open>
  Round to nearest, ties to even, with 53 bits of precision, exponents from -1022
  (below it the spacing stays \<open>2^-1074\<close>: subnormal numbers) and overflow to an infinity
  from \<open>2^1024\<close>.
\<close>

definition round_double :: "rat \<Rightarrow> number" where
  "round_double x =
     (if x = 0 then Finite 0
      else let a = \<bar>x\<bar>;
               e = max (floor_log2 a) (- 1022);
               u = pow2 (e - 52);
               r = of_int (round_half_even (a / u)) * u
           in if pow2 1024 \<le> r then (if x < 0 then NegInfinity else PosInfinity)
              else Finite (if x < 0 then - r else r))"

subsection \<open>\<open>Number(string)\<close>\<close>

definition is_digit :: "char \<Rightarrow> bool" where
  "is_digit c = (48 \<le> (of_char c :: nat) \<and> (of_char c :: nat) \<le> 57)"

definition digit_val :: "char \<Rightarrow> int" where
  "digit_val c = int (of_char c) - 48"

definition hex_val :: "char \<Rightarrow> int option" where
  "hex_val c =
     (let n = (of_char c :: nat)
      in if 48 \<le> n \<and> n \<le> 57 then Some (int n - 48)
         else if 97 \<le> n \<and> n \<le> 102 then Some (int n - 87)
         else if 65 \<le> n \<and> n \<le> 70 then Some (int n - 55)
         else None)"

text \<open>The value of a digit string in a radix; \<open>None\<close> when a character is no digit of it.\<close>

fun radix_val :: "int \<Rightarrow> int \<Rightarrow> string \<Rightarrow> int option" where
  "radix_val r acc [] = Some acc"
| "radix_val r acc (c # cs) =
     (case hex_val c of
        None \<Rightarrow> None
      | Some d \<Rightarrow> if d < r then radix_val r (r * acc + d) cs else None)"

text \<open>White space and line terminators with a code below 256.\<close>

definition is_space :: "char \<Rightarrow> bool" where
  "is_space c = ((of_char c :: nat) \<in> {9, 10, 11, 12, 13, 32, 160})"

definition trim :: "string \<Rightarrow> string" where
  "trim s = rev (dropWhile is_space (rev (dropWhile is_space s)))"

text \<open>\<open>0x\<close>, \<open>0o\<close> and \<open>0b\<close> literals: the radix of the prefix, if the string has one.\<close>

definition radix_prefix :: "string \<Rightarrow> int option" where
  "radix_prefix s =
     (case s of
        c0 # c1 # _ \<Rightarrow>
          if c0 \<noteq> CHR ''0'' then None
          else if c1 = CHR ''x'' \<or> c1 = CHR ''X'' then Some 16
          else if c1 = CHR ''o'' \<or> c1 = CHR ''O'' then Some 8
          else if c1 = CHR ''b'' \<or> c1 = CHR ''B'' then Some 2
          else None
      | _ \<Rightarrow> None)"

text \<open>The exponent part of a decimal literal: empty, or \<open>e\<close>/\<open>E\<close>, a sign and digits.\<close>

definition exponent_part :: "string \<Rightarrow> int option" where
  "exponent_part s =
     (case s of
        [] \<Rightarrow> Some 0
      | c # t \<Rightarrow>
          if c = CHR ''e'' \<or> c = CHR ''E'' then
            (let neg = (case t of s0 # _ \<Rightarrow> s0 = CHR ''-'' | [] \<Rightarrow> False);
                 signed = (case t of s0 # _ \<Rightarrow> s0 = CHR ''-'' \<or> s0 = CHR ''+'' | [] \<Rightarrow> False);
                 ds = (if signed then tl t else t)
             in if ds \<noteq> [] \<and> list_all is_digit ds
                then (case radix_val 10 0 ds of
                        Some v \<Rightarrow> Some (if neg then - v else v)
                      | None \<Rightarrow> None)
                else None)
          else None)"

text \<open>
  An unsigned decimal literal: digits, optionally a dot and digits, optionally an
  exponent; at least one digit before or after the dot.
\<close>

definition str_decimal :: "string \<Rightarrow> rat option" where
  "str_decimal s =
     (let ds1 = takeWhile is_digit s;
          r1 = dropWhile is_digit s;
          dot = (case r1 of c # _ \<Rightarrow> c = CHR ''.'' | [] \<Rightarrow> False);
          ds2 = (if dot then takeWhile is_digit (tl r1) else []);
          r2 = (if dot then dropWhile is_digit (tl r1) else r1)
      in if ds1 = [] \<and> ds2 = [] then None
         else (case (radix_val 10 0 (ds1 @ ds2), exponent_part r2) of
                 (Some m, Some ex) \<Rightarrow> Some (of_int m * pow10 (ex - int (length ds2)))
               | _ \<Rightarrow> None))"

definition js_Number :: "string \<Rightarrow> number" where
  "js_Number s =
     (let t = trim s
      in if t = [] then Finite 0
         else (case radix_prefix t of
                 Some r \<Rightarrow>
                   (if drop 2 t = [] then NaN
                    else (case radix_val r 0 (drop 2 t) of
                            Some v \<Rightarrow> round_double (of_int v)
                          | None \<Rightarrow> NaN))
               | None \<Rightarrow>
                   (let neg = (hd t = CHR ''-'');
                        u = (if hd t = CHR ''-'' \<or> hd t = CHR ''+'' then tl t else t)
                    in if u = ''Infinity'' then (if neg then NegInfinity else PosInfinity)
                       else (case str_decimal u of
                               Some q \<Rightarrow> round_double (if neg then - q else q)
                             | None \<Rightarrow> NaN))))"

subsection \<open>Comparison and truthiness of numbers\<close>

fun js_less :: "number \<Rightarrow> number \<Rightarrow> bool" where
  "js_less NaN _ = False"
| "js_less _ NaN = False"
| "js_less NegInfinity NegInfinity = False"
| "js_less NegInfinity _ = True"
| "js_less (Finite a) (Finite b) = (a < b)"
| "js_less (Finite a) PosInfinity = True"
| "js_less (Finite a) NegInfinity = False"
| "js_less PosInfinity _ = False"

text \<open>\<open>x || 0\<close> for an array element \<open>x\<close>: \<open>undefined\<close>, \<open>NaN\<close> and \<open>0\<close> give \<open>0\<close>.\<close>

fun or_zero :: "number option \<Rightarrow> number" where
  "or_zero None = Finite 0"
| "or_zero (Some NaN) = Finite 0"
| "or_zero (Some x) = x"

text \<open>\<open>xs[i]\<close>: \<open>undefined\<close> past the end of the array.\<close>

definition at_index :: "'a list \<Rightarrow> nat \<Rightarrow> 'a option" where
  "at_index xs i = (if i < length xs then Some (xs ! i) else None)"

section \<open>Version comparison\<close>

text \<open>\<open>s.replace('v', '')\<close> removes the first \<open>v\<close> of the string, wherever it stands.\<close>

definition replace_v :: "string \<Rightarrow> string" where
  "replace_v s = remove1 (CHR ''v'') s"

text \<open>\<open>s.split(sep)\<close> for a one-character separator: the pieces between its occurrences;
  one piece for a string without it.\<close>

fun split_on :: "char \<Rightarrow> string \<Rightarrow> string list" where
  "split_on sep [] = [[]]"
| "split_on sep (c # cs) =
     (if c = sep then [] # split_on sep cs
      else (case split_on sep cs of
              piece # pieces \<Rightarrow> (c # piece) # pieces
            | [] \<Rightarrow> [[c]]))"

function compare_from :: "number list \<Rightarrow> number list \<Rightarrow> nat \<Rightarrow> int" where
  "compare_from v1Parts v2Parts i =
     (if i < max (length v1Parts) (length v2Parts) then
        (let v1 = or_zero (at_index v1Parts i);
             v2 = or_zero (at_index v2Parts i)
         in if js_less v2 v1 then 1
            else if js_less v1 v2 then - 1
            else compare_from v1Parts v2Parts (Suc i))
      else 0)"
  by pat_completeness auto
termination
  by (relation "measure (\<lambda>(a, b, i). max (length a) (length b) - i)") auto

text \<open>An argument is falsy when it is \<open>null\<close>, \<open>undefined\<close> or the empty string.\<close>

definition falsy :: "string option \<Rightarrow> bool" where
  "falsy v = (v = None \<or> v = Some [])"

definition compareVersions :: "string option \<Rightarrow> string option \<Rightarrow> int" where
  "compareVersions version1 version2 =
     (if falsy version1 \<or> falsy version2 then 0
      else (case (version1, version2) of
              (Some a, Some b) \<Rightarrow>
                compare_from (map js_Number (split_on (CHR ''.'') (replace_v a)))
                             (map js_Number (split_on (CHR ''.'') (replace_v b))) 0
            | _ \<Rightarrow> 0))"

subsection \<open>The comparison in the words of the specification\<close>

text \<open>
  The algorithm of the specification, section 4.2, kept apart from the code's: strip one
  leading character that is no digit, split on the dot, read each segment as an
  integer (\<open>0\<close> for a segment that is missing or not a numeral), compare segment by
  segment up to the longer length.
\<close>

definition spec_strip_prefix :: "string \<Rightarrow> string" where
  "spec_strip_prefix s = (case s of c # cs \<Rightarrow> if is_digit c then s else cs | [] \<Rightarrow> [])"

definition spec_parse_segment :: "string \<Rightarrow> int" where
  "spec_parse_segment t =
     (if t \<noteq> [] \<and> list_all is_digit t
      then foldl (\<lambda>acc c. 10 * acc + digit_val c) 0 t else 0)"

fun spec_compare_segments :: "int list \<Rightarrow> int list \<Rightarrow> int" where
  "spec_compare_segments [] [] = 0"
| "spec_compare_segments (x # xs) [] =
     (if x > 0 then 1 else if x < 0 then - 1 else spec_compare_segments xs [])"
| "spec_compare_segments [] (y # ys) =
     (if 0 > y then 1 else if 0 < y then - 1 else spec_compare_segments [] ys)"
| "spec_compare_segments (x # xs) (y # ys) =
     (if x > y then 1 else if x < y then - 1 else spec_compare_segments xs ys)"

definition spec_compare :: "string option \<Rightarrow> string option \<Rightarrow> int" where
  "spec_compare a b =
     (if falsy a \<or> falsy b then 0
      else spec_compare_segments
             (map spec_parse_segment (split_on (CHR ''.'') (spec_strip_prefix (the a))))
             (map spec_parse_segment (split_on (CHR ''.'') (spec_strip_prefix (the b)))))"

text \<open>
  The \<open>i\<close>-th numeric segment of a version string as the code reads it: the first \<open>v\<close>
  removed, the \<open>i\<close>-th piece between dots converted by \<open>Number\<close>, and \<open>0\<close> where the
  piece is missing or converts to \<open>NaN\<close>.
\<close>

definition segment :: "string \<Rightarrow> nat \<Rightarrow> number" where
  "segment s i =
     (case at_index (split_on (CHR ''.'') (replace_v s)) i of
        None \<Rightarrow> Finite 0
      | Some t \<Rightarrow> (case js_Number t of NaN \<Rightarrow> Finite 0 | n \<Rightarrow> n))"
text \<open>
  A version string of the usual form: an optional leading \<open>v\<close>, then segments of decimal
  digits separated by dots, each denoting an integer below \<open>2^53\<close>; a string without
  the \<open>v\<close> starts with a digit.
\<close>

definition plain_segments :: "string \<Rightarrow> bool" where
  "plain_segments r =
     list_all (\<lambda>t. list_all is_digit t \<and> spec_parse_segment t < 2 ^ 53)
       (split_on (CHR ''.'') r)"

definition plain_version :: "string \<Rightarrow> bool" where
  "plain_version s =
     (case s of
        [] \<Rightarrow> False
      | c # cs \<Rightarrow> if c = CHR ''v'' then plain_segments cs else is_digit c \<and> plain_segments s)"

section \<open>The update manager\<close>

subsection \<open>Data\<close>

text \<open>
  A plugin record, as \<open>registerPlugin\<close> builds it. The \<open>log\<close> field (a function the
  manager stores and never calls) is left out. \<open>disabled\<close> is a property that the object
  only has once \<open>disablePluginUpdates\<close> or \<open>enablePluginUpdates\<close> has set it. Dates are
  numbers (milliseconds).
\<close>

record plugin =
  name :: string
  version :: "string option"
  owner :: string
  repo :: string
  filePath :: string
  needsUpdate :: bool
  latestVersion :: "string option"
  lastChecked :: "nat option"
  lastUpdated :: "nat option"
  error :: "string option"
  disabled :: "bool option"

record summary =
  totalChecked :: nat
  totalUpdated :: nat
  pluginsChecked :: "string list"
  pluginsUpdated :: "string list"
  lastCheck :: "nat option"

record config =
  enabled :: bool
  checkInterval :: nat
  initialDelay :: nat
  batchDelay :: nat
  staggerDelay :: nat
  maxRetries :: nat
  retryDelay :: nat

text \<open>
  What \<open>response.data\<close> of an HTTP response can be: nothing, a text body, or a parsed JSON
  object, of which only the \<open>tag_name\<close> property (a string, if the object has it) is
  read.
\<close>

datatype jsvalue = Null | Str string | Obj "string option"

text \<open>A thrown value: its \<open>message\<close> and, for a failed request, \<open>response.status\<close>.\<close>

datatype exn = Error (message: "string option") (status: "nat option")

text \<open>The object \<open>performPluginUpdate\<close> returns; \<open>failure\<close> is its \<open>error\<close> property.\<close>

record update_result =
  updated :: bool
  newVersion :: "string option"
  oldVersion :: "string option"
  backupPath :: "string option"
  failure :: "string option"

text \<open>A callback handed to \<open>setTimeout\<close>, with the plugin objects it captured.\<close>

datatype task = InitialUpdateCheck | RepositoryCheck string "nat list"

text \<open>The calls the manager makes to the world outside it, for the record of a run.\<close>

datatype call =
    HttpGet string
  | ExistsSync string
  | MkdirSync string
  | ReadFileSync string
  | WriteFileSync string jsvalue
  | OnPluginUpdated string "string option" string "string option"

text \<open>
  The world outside the manager (network, file system, clock, the notifier object) has
  a state of an arbitrary type \<open>'w\<close>. Each external operation is a function of that
  state, giving a result or a thrown value, and the next state; nothing else is
  assumed about it. The functions of Node's \<open>path\<close> module are pure.
\<close>

record 'w env =
  axios_get :: "string \<Rightarrow> 'w \<Rightarrow> (exn + jsvalue) \<times> 'w"
  existsSync :: "string \<Rightarrow> 'w \<Rightarrow> bool"
  mkdirSync :: "string \<Rightarrow> 'w \<Rightarrow> (exn + unit) \<times> 'w"
  readFileSync :: "string \<Rightarrow> 'w \<Rightarrow> (exn + string) \<times> 'w"
  writeFileSync :: "string \<Rightarrow> jsvalue \<Rightarrow> 'w \<Rightarrow> (exn + unit) \<times> 'w"
  onPluginUpdated ::
    "string \<Rightarrow> string option \<Rightarrow> string \<Rightarrow> string option \<Rightarrow> 'w \<Rightarrow> (exn + unit) \<times> 'w"
  new_Date :: "'w \<Rightarrow> nat"
  process_cwd :: "'w \<Rightarrow> string"
  path_join :: "string list \<Rightarrow> string"
  path_basename :: "string \<Rightarrow> string"
  path_relative :: "string \<Rightarrow> string \<Rightarrow> string"

text \<open>
  The static fields of the class. \<open>registeredPlugins\<close> is a \<open>Map\<close> in insertion order
  from names to plugin objects; the objects live in \<open>objects\<close>, addressed by a number,
  since the repository groups of a cycle hold the same objects as the registry.
  \<open>discordNotifier\<close> says whether a notifier object is set. \<open>updateInterval\<close> is the
  period of the armed interval timer, \<open>timeouts\<close> the callbacks handed to \<open>setTimeout\<close>
  with their delays. Console output is not part of the model.
\<close>

record 'w manager =
  registeredPlugins :: "(string \<times> nat) list"
  objects :: "nat \<Rightarrow> plugin"
  next_object :: nat
  updateSummary :: summary
  updateInterval :: "nat option"
  isInitialized :: bool
  discordNotifier :: bool
  config :: config
  timeouts :: "(nat \<times> task) list"
  world :: 'w
  calls :: "call list"

subsection \<open>Control flow: results, exceptions, \<open>try\<close>/\<open>catch\<close>\<close>

text \<open>
  A method that may throw is a function from the state to a result or a thrown value
  (\<open>Inl\<close>), and the state it leaves.
\<close>

type_synonym ('a, 'w) action = "'w manager \<Rightarrow> (exn + 'a) \<times> 'w manager"

definition ret :: "'a \<Rightarrow> ('a, 'w) action" where
  "ret x = (\<lambda>s. (Inr x, s))"

definition throw :: "exn \<Rightarrow> ('a, 'w) action" where
  "throw e = (\<lambda>s. (Inl e, s))"

definition bind :: "('a, 'w) action \<Rightarrow> ('a \<Rightarrow> ('b, 'w) action) \<Rightarrow> ('b, 'w) action" where
  "bind m f = (\<lambda>s. case m s of (Inl e, s') \<Rightarrow> (Inl e, s') | (Inr x, s') \<Rightarrow> f x s')"

definition try_catch :: "('a, 'w) action \<Rightarrow> (exn \<Rightarrow> ('a, 'w) action) \<Rightarrow> ('a, 'w) action" where
  "try_catch m h = (\<lambda>s. case m s of (Inl e, s') \<Rightarrow> h e s' | (Inr x, s') \<Rightarrow> (Inr x, s'))"

text \<open>Reading the state, and an external call, which is recorded in \<open>calls\<close>.\<close>

definition gets :: "('w manager \<Rightarrow> 'a) \<Rightarrow> ('a, 'w) action" where
  "gets f = (\<lambda>s. (Inr (f s), s))"

definition extern :: "call \<Rightarrow> ('w \<Rightarrow> (exn + 'a) \<times> 'w) \<Rightarrow> ('a, 'w) action" where
  "extern c f =
     (\<lambda>s. case f (world s) of (r, w) \<Rightarrow> (r, s\<lparr>world := w, calls := calls s @ [c]\<rparr>))"

text \<open>Assigning to properties of the plugin object \<open>p\<close>.\<close>

definition assign :: "nat \<Rightarrow> (plugin \<Rightarrow> plugin) \<Rightarrow> (unit, 'w) action" where
  "assign p f = (\<lambda>s. (Inr (), s\<lparr>objects := (objects s)(p := f (objects s p))\<rparr>))"

subsection \<open>The cycle summary\<close>

definition addPluginChecked :: "string \<Rightarrow> 'w manager \<Rightarrow> 'w manager" where
  "addPluginChecked pluginName s =
     (if pluginName \<notin> set (pluginsChecked (updateSummary s))
      then s\<lparr>updateSummary := (updateSummary s)
             \<lparr>pluginsChecked := pluginsChecked (updateSummary s) @ [pluginName],
              totalChecked := totalChecked (updateSummary s) + 1\<rparr>\<rparr>
      else s)"

definition addPluginUpdated :: "string \<Rightarrow> string \<Rightarrow> 'w manager \<Rightarrow> 'w manager" where
  "addPluginUpdated pluginName newVersion' s =
     (if pluginName \<notin> set (pluginsUpdated (updateSummary s))
      then s\<lparr>updateSummary := (updateSummary s)
             \<lparr>pluginsUpdated := pluginsUpdated (updateSummary s) @ [pluginName],
              totalUpdated := totalUpdated (updateSummary s) + 1\<rparr>\<rparr>
      else s)"

definition resetUpdateSummary :: "'w manager \<Rightarrow> 'w manager" where
  "resetUpdateSummary s =
     s\<lparr>updateSummary :=
         \<lparr>totalChecked = 0, totalUpdated = 0, pluginsChecked = [], pluginsUpdated = [],
          lastCheck = None\<rparr>\<rparr>"

text \<open>\<open>printUpdateSummary\<close>: the lines it prints are console output; what is left is the
  early return and the reset.\<close>

definition printUpdateSummary :: "'w manager \<Rightarrow> 'w manager" where
  "printUpdateSummary s =
     (if totalChecked (updateSummary s) = 0 then s else resetUpdateSummary s)"

subsection \<open>The registry\<close>

definition startPeriodicChecks :: "'w manager \<Rightarrow> 'w manager" where
  "startPeriodicChecks s = s\<lparr>updateInterval := Some (checkInterval (config s))\<rparr>"

definition initialize :: "'w manager \<Rightarrow> 'w manager" where
  "initialize s =
     (if isInitialized s then s
      else (startPeriodicChecks
              (s\<lparr>timeouts := timeouts s @ [(initialDelay (config s), InitialUpdateCheck)]\<rparr>))
           \<lparr>isInitialized := True\<rparr>)"

text \<open>\<open>registerPlugin\<close> returns the new object; \<open>Map.set\<close> replaces the value of a key that
  is there and appends a key that is not.\<close>

definition registerPlugin ::
  "string \<Rightarrow> string option \<Rightarrow> string \<Rightarrow> string \<Rightarrow> string \<Rightarrow> 'w manager \<Rightarrow> nat \<times> 'w manager"
where
  "registerPlugin pluginName currentVersion owner' repo' pluginFilePath s =
     (let pluginInfo =
            \<lparr>name = pluginName, version = currentVersion, owner = owner', repo = repo',
             filePath = pluginFilePath, needsUpdate = False, latestVersion = None,
             lastChecked = None, lastUpdated = None, error = None, disabled = None\<rparr>;
          p = next_object s;
          s1 = s\<lparr>objects := (objects s)(p := pluginInfo), next_object := Suc p,
                 registeredPlugins := AList.update pluginName p (registeredPlugins s)\<rparr>
      in (p, if \<not> isInitialized s1 then initialize s1 else s1))"

definition getPluginInfo :: "string \<Rightarrow> 'w manager \<Rightarrow> plugin option" where
  "getPluginInfo pluginName s =
     map_option (objects s) (map_of (registeredPlugins s) pluginName)"

definition getAllPlugins :: "'w manager \<Rightarrow> string list" where
  "getAllPlugins s = map fst (registeredPlugins s)"

definition disablePluginUpdates :: "string \<Rightarrow> 'w manager \<Rightarrow> 'w manager" where
  "disablePluginUpdates pluginName s =
     (case map_of (registeredPlugins s) pluginName of
        Some p \<Rightarrow> s\<lparr>objects := (objects s)(p := (objects s p)\<lparr>disabled := Some True\<rparr>)\<rparr>
      | None \<Rightarrow> s)"

definition enablePluginUpdates :: "string \<Rightarrow> 'w manager \<Rightarrow> 'w manager" where
  "enablePluginUpdates pluginName s =
     (case map_of (registeredPlugins s) pluginName of
        Some p \<Rightarrow> s\<lparr>objects := (objects s)(p := (objects s p)\<lparr>disabled := Some False\<rparr>)\<rparr>
      | None \<Rightarrow> s)"

definition setDiscordNotifier :: "bool \<Rightarrow> 'w manager \<Rightarrow> 'w manager" where
  "setDiscordNotifier notifier s = s\<lparr>discordNotifier := notifier\<rparr>"

definition stop :: "'w manager \<Rightarrow> 'w manager" where
  "stop s = s\<lparr>updateInterval := None, isInitialized := False\<rparr>"

definition restart :: "'w manager \<Rightarrow> 'w manager" where
  "restart s = initialize (stop s)"

subsection \<open>The remote version\<close>

text \<open>\<open>getLatestVersion\<close>: the tag of the latest release, or \<open>null\<close>. Both branches of its
  \<open>catch\<close> log and return \<open>null\<close>.\<close>

definition release_url :: "string \<Rightarrow> string \<Rightarrow> string" where
  "release_url owner' repo' =
     ''https://api.github.com/repos/'' @ owner' @ ''/'' @ repo' @ ''/releases/latest''"

definition getLatestVersion :: "'w env \<Rightarrow> string \<Rightarrow> string \<Rightarrow> (string option, 'w) action" where
  "getLatestVersion env owner' repo' =
     try_catch
       (let url = release_url owner' repo'
        in bind (extern (HttpGet url) (axios_get env url)) (\<lambda>data.
           (case data of
              Obj (Some tag_name) \<Rightarrow> if tag_name \<noteq> [] then ret (Some tag_name) else ret None
            | _ \<Rightarrow> ret None)))
       (\<lambda>error. ret None)"

subsection \<open>The update transaction\<close>

text \<open>\<open>getRelativePath\<close>: the path relative to the working directory, with every
  backslash replaced by a slash.\<close>

definition relative_path :: "'w env \<Rightarrow> 'w \<Rightarrow> string \<Rightarrow> string" where
  "relative_path env w filePath' =
     map (\<lambda>c. if c = CHR 0x5C then CHR ''/'' else c)
       (path_relative env (process_cwd env w) filePath')"

definition getRelativePath :: "'w env \<Rightarrow> string \<Rightarrow> (string, 'w) action" where
  "getRelativePath env filePath' = gets (\<lambda>s. relative_path env (world s) filePath')"

text \<open>The address \<open>performPluginUpdate\<close> downloads the new code from.\<close>

definition download_url :: "'w env \<Rightarrow> 'w \<Rightarrow> plugin \<Rightarrow> string \<Rightarrow> string" where
  "download_url env w plugin latestVersion' =
     ''https://raw.githubusercontent.com/'' @ owner plugin @ ''/'' @ repo plugin @ ''/''
       @ latestVersion' @ ''/'' @ relative_path env w (filePath plugin)"

definition createBackup :: "'w env \<Rightarrow> nat \<Rightarrow> (string option, 'w) action" where
  "createBackup env p =
     try_catch
       (bind (gets (\<lambda>s. objects s p)) (\<lambda>plugin.
        bind (gets (\<lambda>s. process_cwd env (world s))) (\<lambda>baseDir.
        let backupDir = path_join env [baseDir, ''BACKUP-Plugins'', name plugin]
        in bind (extern (ExistsSync backupDir) (\<lambda>w. (Inr (existsSync env backupDir w), w))) (\<lambda>ex.
           bind (if \<not> ex then extern (MkdirSync backupDir) (mkdirSync env backupDir)
                 else ret ()) (\<lambda>_.
           let backupPath' =
                 path_join env [backupDir, path_basename env (filePath plugin) @ ''.backup'']
           in bind (extern (ReadFileSync (filePath plugin))
                      (readFileSync env (filePath plugin))) (\<lambda>currentCode.
              bind (extern (WriteFileSync backupPath' (Str currentCode))
                      (writeFileSync env backupPath' (Str currentCode))) (\<lambda>_.
              ret (Some backupPath'))))))))
       (\<lambda>error. ret None)"

definition performPluginUpdate :: "'w env \<Rightarrow> nat \<Rightarrow> string \<Rightarrow> (update_result, 'w) action" where
  "performPluginUpdate env p latestVersion' =
     try_catch
       (bind (gets (\<lambda>s. objects s p)) (\<lambda>plugin.
        bind (getRelativePath env (filePath plugin)) (\<lambda>relativePath.
        let updatedCodeUrl = ''https://raw.githubusercontent.com/'' @ owner plugin @ ''/''
              @ repo plugin @ ''/'' @ latestVersion' @ ''/'' @ relativePath
        in bind (extern (HttpGet updatedCodeUrl) (axios_get env updatedCodeUrl)) (\<lambda>updatedCode.
           bind (createBackup env p) (\<lambda>backupPath'.
           bind (extern (WriteFileSync (filePath plugin) updatedCode)
                   (writeFileSync env (filePath plugin) updatedCode)) (\<lambda>_.
           bind (extern (ReadFileSync (filePath plugin))
                   (readFileSync env (filePath plugin))) (\<lambda>verifyCode.
           if Str verifyCode \<noteq> updatedCode
           then throw (Error (Some ''File verification failed - update was not written correctly'')
                         None)
           else ret \<lparr>updated = True, newVersion = Some latestVersion',
                     oldVersion = version plugin, backupPath = backupPath',
                     failure = None\<rparr>)))))))
       (\<lambda>error. ret \<lparr>updated = False, newVersion = None, oldVersion = None,
                     backupPath = None, failure = message error\<rparr>)"

subsection \<open>Checking one plugin\<close>

text \<open>
  \<open>checkPluginUpdate(plugin, latestVersion)\<close> for the plugin object \<open>p\<close>. The only call in
  its \<open>try\<close> block that can throw is the notifier's.
\<close>

definition checkPluginUpdate :: "'w env \<Rightarrow> nat \<Rightarrow> string option \<Rightarrow> (unit, 'w) action" where
  "checkPluginUpdate env p latestVersion0 =
     try_catch
       (bind (if falsy latestVersion0
              then bind (gets (\<lambda>s. objects s p)) (\<lambda>plugin.
                     getLatestVersion env (owner plugin) (repo plugin))
              else ret latestVersion0) (\<lambda>latestVersion'.
        if falsy latestVersion' then
          bind (gets (\<lambda>s. new_Date env (world s))) (\<lambda>d.
          assign p (\<lambda>plugin. plugin\<lparr>error := Some ''Could not determine latest version'',
                                     lastChecked := Some d\<rparr>))
        else
          bind (gets (\<lambda>s. new_Date env (world s))) (\<lambda>d.
          bind (assign p (\<lambda>plugin. plugin\<lparr>latestVersion := latestVersion',
                                           lastChecked := Some d, error := None\<rparr>)) (\<lambda>_.
          bind (gets (\<lambda>s. compareVersions (version (objects s p)) latestVersion')) (\<lambda>comparison.
          bind (if comparison < 0 then
                  bind (assign p (\<lambda>plugin. plugin\<lparr>needsUpdate := True\<rparr>)) (\<lambda>_.
                  bind (performPluginUpdate env p (the latestVersion')) (\<lambda>updateResult.
                  if updated updateResult then
                    bind (gets (\<lambda>s. new_Date env (world s))) (\<lambda>d'.
                    bind (assign p (\<lambda>plugin. plugin\<lparr>lastUpdated := Some d',
                                     version := latestVersion', needsUpdate := False\<rparr>)) (\<lambda>_.
                    bind (gets discordNotifier) (\<lambda>notifier.
                    if notifier then
                      bind (gets (\<lambda>s. name (objects s p))) (\<lambda>n.
                      extern (OnPluginUpdated n (oldVersion updateResult) (the latestVersion')
                                (backupPath updateResult))
                        (onPluginUpdated env n (oldVersion updateResult) (the latestVersion')
                                (backupPath updateResult)))
                    else ret ())))
                  else
                    assign p (\<lambda>plugin. plugin\<lparr>error :=
                      (if falsy (failure updateResult) then Some ''Update failed''
                       else failure updateResult)\<rparr>)))
                else ret ()) (\<lambda>_.
          bind (gets (\<lambda>s. name (objects s p))) (\<lambda>n.
          (\<lambda>s. (Inr (), addPluginChecked n s)))))))))
       (\<lambda>error.
          bind (gets (\<lambda>s. new_Date env (world s))) (\<lambda>d.
          assign p (\<lambda>plugin. plugin\<lparr>error := message error, lastChecked := Some d\<rparr>)))"

subsection \<open>Checking a repository group and scheduling a cycle\<close>

text \<open>A template literal prints a missing array element as \<open>undefined\<close>.\<close>

definition template :: "string option \<Rightarrow> string" where
  "template v = (case v of Some t \<Rightarrow> t | None \<Rightarrow> ''undefined'')"

fun check_each :: "'w env \<Rightarrow> nat list \<Rightarrow> string option \<Rightarrow> (unit, 'w) action" where
  "check_each env [] latestVersion' = ret ()"
| "check_each env (p # plugins) latestVersion' =
     bind (checkPluginUpdate env p latestVersion') (\<lambda>_. check_each env plugins latestVersion')"

definition checkRepositoryUpdates :: "'w env \<Rightarrow> string \<Rightarrow> nat list \<Rightarrow> (unit, 'w) action" where
  "checkRepositoryUpdates env repoKey plugins =
     try_catch
       (let parts = split_on (CHR ''/'') repoKey;
            owner' = template (at_index parts 0);
            repo' = template (at_index parts 1)
        in bind (getLatestVersion env owner' repo') (\<lambda>latestVersion'.
           if falsy latestVersion' then ret ()
           else check_each env plugins latestVersion'))
       (\<lambda>error. ret ())"

text \<open>The grouping loop of \<open>checkAllUpdates\<close>: \<open>repos\<close> is a \<open>Map\<close> from \<open>owner/repo\<close> to the
  array of the plugin objects of that repository.\<close>

fun group_plugins ::
  "(nat \<Rightarrow> plugin) \<Rightarrow> (string \<times> nat) list \<Rightarrow> (string \<times> nat list) list \<Rightarrow> (string \<times> nat list) list"
where
  "group_plugins objs [] repos = repos"
| "group_plugins objs ((n, p) # rest) repos =
     (let repoKey = owner (objs p) @ ''/'' @ repo (objs p);
          repos1 = (if map_of repos repoKey = None then AList.update repoKey [] repos else repos)
      in group_plugins objs rest (AList.map_entry repoKey (\<lambda>ps. ps @ [p]) repos1))"

text \<open>The scheduling loop: one \<open>setTimeout\<close> for each group, \<open>staggerDelay\<close> apart.\<close>

fun schedule_groups :: "nat \<Rightarrow> nat \<Rightarrow> (string \<times> nat list) list \<Rightarrow> (nat \<times> task) list" where
  "schedule_groups stagger delay [] = []"
| "schedule_groups stagger delay ((repoKey, plugins) # rest) =
     (delay, RepositoryCheck repoKey plugins) # schedule_groups stagger (delay + stagger) rest"

definition checkAllUpdates :: "'w env \<Rightarrow> 'w manager \<Rightarrow> 'w manager" where
  "checkAllUpdates env s =
     (if \<not> enabled (config s) \<or> length (registeredPlugins s) = 0 then s
      else (let repos = group_plugins (objects s) (registeredPlugins s) [];
                s1 = s\<lparr>timeouts := timeouts s @ schedule_groups (staggerDelay (config s)) 0 repos\<rparr>
            in s1\<lparr>updateSummary := (updateSummary s1)
                    \<lparr>lastCheck := Some (new_Date env (world s1))\<rparr>\<rparr>))"

text \<open>The manual check of one plugin by its name.\<close>

definition checkPluginUpdates :: "'w env \<Rightarrow> string \<Rightarrow> (unit, 'w) action" where
  "checkPluginUpdates env pluginName =
     (\<lambda>s. case map_of (registeredPlugins s) pluginName of
             None \<Rightarrow> (Inr (), s)
           | Some p \<Rightarrow> checkPluginUpdate env p None s)"

definition checkAllPlugins :: "'w env \<Rightarrow> 'w manager \<Rightarrow> 'w manager" where
  "checkAllPlugins env s = checkAllUpdates env s"

subsection \<open>Predicates for stating what a method does\<close>

fun is_notification :: "call \<Rightarrow> bool" where
  "is_notification (OnPluginUpdated n old new backup) = True"
| "is_notification _ = False"

text \<open>A method never throws: from every state it returns a result.\<close>

definition never_throws :: "('a, 'w) action \<Rightarrow> bool" where
  "never_throws m = (\<forall>s. \<exists>x s'. m s = (Inr x, s'))"

text \<open>A method touches the world only: whatever it returns or throws, it leaves every
  field of the manager as it was but \<open>world\<close> and \<open>calls\<close>, and it does not call the
  notifier.\<close>

definition world_only :: "('a, 'w) action \<Rightarrow> bool" where
  "world_only m =
     (\<forall>s. \<exists>r w cs. m s = (r, s\<lparr>world := w, calls := calls s @ cs\<rparr>) \<and>
        filter is_notification cs = [])"

subsection \<open>Notions for stating the claims about a check\<close>

text \<open>
  The first statement of \<open>checkPluginUpdate\<close>: the latest version is the one passed in,
  or, when none was passed, the answer of \<open>getLatestVersion\<close> for the plugin's
  repository.
\<close>

definition resolve_latest :: "'w env \<Rightarrow> nat \<Rightarrow> string option \<Rightarrow> (string option, 'w) action" where
  "resolve_latest env p latestVersion0 =
     (\<lambda>s. if falsy latestVersion0
          then getLatestVersion env (owner (objects s p)) (repo (objects s p)) s
          else (Inr latestVersion0, s))"

text \<open>
  The state in which \<open>checkPluginUpdate\<close> calls \<open>performPluginUpdate\<close>: the plugin object
  carries the latest version, the time of the check, no error, and \<open>needsUpdate\<close>.
\<close>

definition update_pending :: "'w env \<Rightarrow> nat \<Rightarrow> string \<Rightarrow> 'w manager \<Rightarrow> 'w manager" where
  "update_pending env p latestVersion' s =
     s\<lparr>objects := (objects s)(p := (objects s p)
        \<lparr>latestVersion := Some latestVersion', lastChecked := Some (new_Date env (world s)),
         error := None, needsUpdate := True\<rparr>)\<rparr>"

text \<open>
  The steps of the transaction that abort it, in their order: the download, the write
  of the plugin file, the read-back, and the comparison of what was read with what was
  downloaded. \<open>transaction_failure\<close> is the value thrown by the first of them that
  fails, if one does. The backup stands between the download and the write; whether it
  fails does not enter.
\<close>

definition transaction_failure :: "'w env \<Rightarrow> nat \<Rightarrow> string \<Rightarrow> 'w manager \<Rightarrow> exn option" where
  "transaction_failure env p latestVersion' s =
     (let plugin = objects s p;
          url = download_url env (world s) plugin latestVersion'
      in case axios_get env url (world s) of
           (Inl e, w1) \<Rightarrow> Some e
         | (Inr updatedCode, w1) \<Rightarrow>
             (case createBackup env p (s\<lparr>world := w1, calls := calls s @ [HttpGet url]\<rparr>) of
                (b, sb) \<Rightarrow>
                  (case writeFileSync env (filePath plugin) updatedCode (world sb) of
                     (Inl e, w3) \<Rightarrow> Some e
                   | (Inr u, w3) \<Rightarrow>
                       (case readFileSync env (filePath plugin) w3 of
                          (Inl e, w4) \<Rightarrow> Some e
                        | (Inr verifyCode, w4) \<Rightarrow>
                            if Str verifyCode \<noteq> updatedCode
                            then Some (Error (Some
                              ''File verification failed - update was not written correctly'')
                              None)
                            else None))))"

text \<open>The backup step fails: \<open>createBackup\<close>, run after the download, returns \<open>null\<close>.\<close>

definition backup_fails :: "'w env \<Rightarrow> nat \<Rightarrow> string \<Rightarrow> 'w manager \<Rightarrow> bool" where
  "backup_fails env p latestVersion' s =
     (let url = download_url env (world s) (objects s p) latestVersion'
      in case axios_get env url (world s) of
           (Inl e, w1) \<Rightarrow> False
         | (Inr updatedCode, w1) \<Rightarrow>
             fst (createBackup env p (s\<lparr>world := w1, calls := calls s @ [HttpGet url]\<rparr>))
               = Inr None)"

text \<open>The summary counts what it lists, and lists no name twice.\<close>

definition summary_consistent :: "summary \<Rightarrow> bool" where
  "summary_consistent u =
     (distinct (pluginsChecked u) \<and> totalChecked u = length (pluginsChecked u) \<and>
      distinct (pluginsUpdated u) \<and> totalUpdated u = length (pluginsUpdated u))"

text \<open>A method leaves an observation \<open>f\<close> of the state as it was, however it ends.\<close>

definition preserves :: "('w manager \<Rightarrow> 'b) \<Rightarrow> ('a, 'w) action \<Rightarrow> bool" where
  "preserves f m = (\<forall>s. f (snd (m s)) = f s)"

text \<open>The updated side of the summary: the list of names and the counter.\<close>

definition updated_side :: "'w manager \<Rightarrow> string list \<times> nat" where
  "updated_side s = (pluginsUpdated (updateSummary s), totalUpdated (updateSummary s))"

text \<open>The plugin object \<open>p\<close> is in the group of the repository \<open>k\<close>.\<close>

definition grouped :: "(string \<times> nat list) list \<Rightarrow> string \<Rightarrow> nat \<Rightarrow> bool" where
  "grouped repos k p = (\<exists>ps. (k, ps) \<in> set repos \<and> p \<in> set ps)"

section \<open>A concrete world for examples\<close>

text \<open>
  A world whose state is the content of its files, with a fixed table of remote
  resources, a fixed clock and the working directory \<open>/srv\<close>. Three switches make
  \<open>mkdirSync\<close> throw, make \<open>writeFileSync\<close> store only the first half of the data, and
  make the notifier throw.
\<close>

type_synonym files = "(string \<times> string) list"

definition example_join :: "string list \<Rightarrow> string" where
  "example_join ps = foldr (\<lambda>a b. if b = [] then a else a @ ''/'' @ b) ps []"

definition example_env :: "(string \<times> jsvalue) list \<Rightarrow> bool \<Rightarrow> bool \<Rightarrow> bool \<Rightarrow> files env" where
  "example_env remote mkdir_throws write_halves notifier_throws =
     \<lparr>axios_get = (\<lambda>url w.
        case map_of remote url of
          Some d \<Rightarrow> (Inr d, w)
        | None \<Rightarrow> (Inl (Error (Some ''Request failed with status code 404'') (Some 404)), w)),
      existsSync = (\<lambda>path w. False),
      mkdirSync = (\<lambda>path w.
        if mkdir_throws then (Inl (Error (Some ''EACCES: permission denied'') None), w)
        else (Inr (), w)),
      readFileSync = (\<lambda>path w.
        case map_of w path of
          Some c \<Rightarrow> (Inr c, w)
        | None \<Rightarrow> (Inl (Error (Some ''ENOENT: no such file or directory'') None), w)),
      writeFileSync = (\<lambda>path d w.
        case d of
          Str c \<Rightarrow>
            (Inr (), AList.update path (if write_halves then take (length c div 2) c else c) w)
        | _ \<Rightarrow> (Inl (Error (Some ''The data argument must be of type string'') None), w)),
      onPluginUpdated = (\<lambda>n old new backup w.
        if notifier_throws then (Inl (Error (Some ''channel not found'') None), w)
        else (Inr (), w)),
      new_Date = (\<lambda>w. 1000),
      process_cwd = (\<lambda>w. ''/srv''),
      path_join = example_join,
      path_basename = (\<lambda>path. last (split_on (CHR ''/'') path)),
      path_relative = (\<lambda>from to. drop (Suc (length from)) to)\<rparr>"

definition example_remote :: "(string \<times> jsvalue) list" where
  "example_remote =
     [(''https://api.github.com/repos/acme/plugins/releases/latest'', Obj (Some ''v2.0.0'')),
      (''https://raw.githubusercontent.com/acme/plugins/v2.0.0/plugins/a.js'', Str ''new code'')]"

definition example_files :: files where
  "example_files = [(''/srv/plugins/a.js'', ''old code'')]"

definition default_config :: config where
  "default_config =
     \<lparr>enabled = True, checkInterval = 1800000, initialDelay = 15000, batchDelay = 5000,
      staggerDelay = 300000, maxRetries = 3, retryDelay = 1000\<rparr>"

text \<open>The static fields as the class declares them; no plugin object exists yet.\<close>

definition initial_manager :: "'w \<Rightarrow> 'w manager" where
  "initial_manager w =
     \<lparr>registeredPlugins = [],
      objects = (\<lambda>_. \<lparr>name = [], version = None, owner = [], repo = [], filePath = [],
                       needsUpdate = False, latestVersion = None, lastChecked = None,
                       lastUpdated = None, error = None, disabled = None\<rparr>),
      next_object = 0,
      updateSummary = \<lparr>totalChecked = 0, totalUpdated = 0, pluginsChecked = [],
                        pluginsUpdated = [], lastCheck = None\<rparr>,
      updateInterval = None, isInitialized = False, discordNotifier = False,
      config = default_config, timeouts = [], world = w, calls = []\<rparr>"

text \<open>One plugin \<open>A\<close> at \<open>v1.0.0\<close>, registered from \<open>acme/plugins\<close>.\<close>

definition example_manager :: "files manager" where
  "example_manager =
     snd (registerPlugin ''A'' (Some ''v1.0.0'') ''acme'' ''plugins'' ''/srv/plugins/a.js''
            (initial_manager example_files))"

section \<open>Properties of the number model\<close>

declare compare_from.simps [simp del]

lemma pow2_nonpos: "i \<le> 0 \<Longrightarrow> pow2 i = 1 / 2 ^ nat (- i)"
  by (cases "i = 0") (simp_all add: pow2_def)

lemma round_half_even_of_int: "round_half_even (of_int z) = z"
  by (simp add: round_half_even_def)

lemma floor_log2_of_int:
  assumes "0 < m"
  shows "floor_log2 (of_int m) = bitlen m - 1"
proof -
  have q: "quotient_of (of_int m) = (m, 1)"
    by (metis Rat.of_int_def quotient_of_int)
  have b1: "bitlen 1 = 1"
    by (subst compute_bitlen) simp
  have nn: "0 \<le> bitlen m - 1"
    using assms bitlen_bounds[of m] bitlen_nonneg[of m] bitlen_eq_zero_iff[of m]
    by (cases "bitlen m = 0") auto
  have "(2::int) ^ nat (bitlen m - 1) \<le> m"
    using bitlen_bounds[OF assms] by simp
  then have "(of_int (2 ^ nat (bitlen m - 1)) :: rat) \<le> of_int m"
    by (simp only: of_int_le_iff)
  then have "pow2 (bitlen m - 1) \<le> of_int m"
    using nn by (simp add: pow2_def)
  then show ?thesis
    by (simp add: floor_log2_def q b1)
qed

text \<open>An integer below \<open>2^53\<close> in magnitude is a double: rounding leaves it as it is.\<close>

lemma double_magnitude_int:
  assumes "0 < m" and "m < 2 ^ 53"
  shows "of_int (round_half_even ((of_int m :: rat) /
           pow2 (max (floor_log2 (of_int m)) (- 1022) - 52))) *
         pow2 (max (floor_log2 (of_int m)) (- 1022) - 52) = (of_int m :: rat)"
    and "\<not> pow2 1024 \<le> (of_int m :: rat)"
proof -
  define k where "k = bitlen m - 1"
  have lo: "(2::int) ^ nat k \<le> m"
    using bitlen_bounds[OF assms(1)] by (simp add: k_def)
  have nn: "0 \<le> k"
    using assms(1) bitlen_nonneg[of m] bitlen_eq_zero_iff[of m]
    by (cases "bitlen m = 0") (auto simp: k_def)
  have p: "(2::int) ^ nat k < 2 ^ 53"
    using lo assms(2) by linarith
  have "nat k < 53"
    by (rule power_less_imp_less_exp[of "2::int"]) (simp, rule p)
  then have k52: "k \<le> 52" by linarith
  have fl: "floor_log2 (of_int m) = k"
    using floor_log2_of_int[OF assms(1)] by (simp add: k_def)
  have e: "max (floor_log2 (of_int m)) (- 1022) = k"
    using fl nn by simp
  have u: "pow2 (k - 52) = 1 / 2 ^ nat (52 - k)"
    using k52 pow2_nonpos[of "k - 52"] by simp
  have quot: "(of_int m :: rat) / pow2 (k - 52) = of_int (m * 2 ^ nat (52 - k))"
    by (simp add: u)
  show "of_int (round_half_even ((of_int m :: rat) /
           pow2 (max (floor_log2 (of_int m)) (- 1022) - 52))) *
         pow2 (max (floor_log2 (of_int m)) (- 1022) - 52) = (of_int m :: rat)"
    unfolding e quot round_half_even_of_int by (simp add: u)
  have "(of_int m :: rat) < of_int (2 ^ 53)"
    using assms(2) by (simp only: of_int_less_iff)
  also have "\<dots> \<le> pow2 1024"
    by (simp add: pow2_def)
  finally show "\<not> pow2 1024 \<le> (of_int m :: rat)" by simp
qed

lemma round_double_of_int:
  assumes "\<bar>n\<bar> < 2 ^ 53"
  shows "round_double (of_int n) = Finite (of_int n)"
proof (cases "n = 0")
  case True
  then show ?thesis by (simp add: round_double_def)
next
  case False
  define m where "m = \<bar>n\<bar>"
  have m: "0 < m" "m < 2 ^ 53"
    using False assms by (simp_all add: m_def)
  have a: "\<bar>of_int n :: rat\<bar> = of_int m"
    by (simp add: m_def)
  show ?thesis
  proof (cases "n < 0")
    case True
    then have "(of_int n :: rat) = - of_int m" by (simp add: m_def)
    with True False double_magnitude_int[OF m] show ?thesis
      by (simp add: round_double_def Let_def a)
  next
    case False
    then have "(of_int n :: rat) = of_int m" by (simp add: m_def)
    with False \<open>n \<noteq> 0\<close> double_magnitude_int[OF m] show ?thesis
      by (simp add: round_double_def Let_def a)
  qed
qed

lemma round_double_numeral [simp]:
  "numeral k < (2::int) ^ 53 \<Longrightarrow> round_double (numeral k) = Finite (numeral k)"
  "numeral k < (2::int) ^ 53 \<Longrightarrow> round_double (- numeral k) = Finite (- numeral k)"
  "round_double 1 = Finite 1"
  "round_double 0 = Finite 0"
  using round_double_of_int[of "numeral k"] round_double_of_int[of "- numeral k"]
    round_double_of_int[of 1] round_double_of_int[of 0]
  by simp_all

lemmas number_eval =
  js_Number_def trim_def is_space_def radix_prefix_def str_decimal_def is_digit_def
  exponent_part_def pow10_def digit_val_def hex_val_def

lemmas compare_eval =
  compareVersions_def falsy_def replace_v_def compare_from.simps at_index_def number_eval

lemma digit_not_space: "is_digit c \<Longrightarrow> \<not> is_space c"
  by (auto simp: is_digit_def is_space_def)

lemma trim_digits:
  assumes "list_all is_digit t"
  shows "trim t = t"
proof (cases t)
  case Nil
  then show ?thesis by (simp add: trim_def)
next
  case (Cons c cs)
  then have "\<not> is_space c" using assms digit_not_space by simp
  then have 1: "dropWhile is_space t = t" using Cons by simp
  have "rev t \<noteq> []" using Cons by simp
  then obtain d ds where r: "rev t = d # ds" by (cases "rev t") auto
  then have "d \<in> set t" by (metis list.set_intros(1) set_rev)
  then have "\<not> is_space d" using assms digit_not_space by (simp add: list_all_iff)
  then have "dropWhile is_space (rev t) = rev t" using r by simp
  then show ?thesis using 1 by (simp add: trim_def)
qed

lemma radix_prefix_digits:
  assumes "list_all is_digit t"
  shows "radix_prefix t = None"
proof (cases t)
  case Nil
  then show ?thesis by (simp add: radix_prefix_def)
next
  case (Cons c0 cs)
  show ?thesis
  proof (cases cs)
    case Nil
    then show ?thesis using Cons by (simp add: radix_prefix_def)
  next
    case (Cons c1 cs')
    then have "is_digit c1" using assms \<open>t = c0 # cs\<close> by simp
    then have "c1 \<noteq> CHR ''x''" "c1 \<noteq> CHR ''X''" "c1 \<noteq> CHR ''o''" "c1 \<noteq> CHR ''O''"
      "c1 \<noteq> CHR ''b''" "c1 \<noteq> CHR ''B''"
      by (auto simp: is_digit_def)
    then show ?thesis using Cons \<open>t = c0 # cs\<close> by (simp add: radix_prefix_def)
  qed
qed

lemma radix_val_nonneg:
  "0 \<le> r \<Longrightarrow> 0 \<le> acc \<Longrightarrow> radix_val r acc t = Some m \<Longrightarrow> 0 \<le> m"
proof (induction t arbitrary: acc)
  case Nil
  then show ?case by simp
next
  case (Cons c cs)
  from Cons.prems(3) obtain d where d: "hex_val c = Some d" "d < r"
      "radix_val r (r * acc + d) cs = Some m"
    by (auto split: option.splits if_splits)
  have "0 \<le> d" using d(1) by (auto simp: hex_val_def Let_def split: if_splits)
  then have "0 \<le> r * acc + d" using Cons.prems(1,2) by simp
  then show ?case using Cons.IH[OF Cons.prems(1) _ d(3)] by simp
qed

section \<open>Version comparison: the first differing segment decides\<close>

lemma or_zero_not_NaN: "or_zero x \<noteq> NaN"
  by (cases x rule: or_zero.cases) simp_all

lemma js_less_irrefl: "\<not> js_less u u"
  by (cases u) simp_all

lemma js_less_asym: "js_less u v \<Longrightarrow> \<not> js_less v u"
  by (cases u; cases v) simp_all

lemma js_less_total: "u \<noteq> NaN \<Longrightarrow> v \<noteq> NaN \<Longrightarrow> \<not> js_less u v \<Longrightarrow> \<not> js_less v u \<Longrightarrow> u = v"
  by (cases u; cases v) simp_all

lemma or_zero_past_end: "length xs \<le> k \<Longrightarrow> or_zero (at_index xs k) = Finite 0"
  by (simp add: at_index_def)

lemma compare_from_cases:
  "(compare_from xs ys i = 1 \<longleftrightarrow>
      (\<exists>k\<ge>i. js_less (or_zero (at_index ys k)) (or_zero (at_index xs k)) \<and>
         (\<forall>j. i \<le> j \<and> j < k \<longrightarrow> or_zero (at_index xs j) = or_zero (at_index ys j)))) \<and>
   (compare_from xs ys i = - 1 \<longleftrightarrow>
      (\<exists>k\<ge>i. js_less (or_zero (at_index xs k)) (or_zero (at_index ys k)) \<and>
         (\<forall>j. i \<le> j \<and> j < k \<longrightarrow> or_zero (at_index xs j) = or_zero (at_index ys j)))) \<and>
   (compare_from xs ys i = 0 \<longleftrightarrow>
      (\<forall>k\<ge>i. or_zero (at_index xs k) = or_zero (at_index ys k)))"
proof (induction xs ys i rule: compare_from.induct)
  case (1 xs ys i)
  let ?g = "\<lambda>k. or_zero (at_index xs k)"
  let ?h = "\<lambda>k. or_zero (at_index ys k)"
  let ?P = "\<lambda>i.
    (compare_from xs ys i = 1 \<longleftrightarrow>
      (\<exists>k\<ge>i. js_less (?h k) (?g k) \<and> (\<forall>j. i \<le> j \<and> j < k \<longrightarrow> ?g j = ?h j))) \<and>
    (compare_from xs ys i = - 1 \<longleftrightarrow>
      (\<exists>k\<ge>i. js_less (?g k) (?h k) \<and> (\<forall>j. i \<le> j \<and> j < k \<longrightarrow> ?g j = ?h j))) \<and>
    (compare_from xs ys i = 0 \<longleftrightarrow> (\<forall>k\<ge>i. ?g k = ?h k))"
  show ?case
  proof (cases "i < max (length xs) (length ys)")
    case False
    then have "length xs \<le> i" "length ys \<le> i"
      by simp_all
    then have z: "\<And>k. i \<le> k \<Longrightarrow> ?g k = Finite 0 \<and> ?h k = Finite 0"
      by (simp add: or_zero_past_end)
    have "compare_from xs ys i = 0"
      using False by (subst compare_from.simps) simp
    then show ?thesis
      using z by (auto simp: js_less_irrefl)
  next
    case True
    consider (gt) "js_less (?h i) (?g i)"
      | (lt) "\<not> js_less (?h i) (?g i)" "js_less (?g i) (?h i)"
      | (eq) "\<not> js_less (?h i) (?g i)" "\<not> js_less (?g i) (?h i)"
      by blast
    then show ?thesis
    proof cases
      case gt
      have r: "compare_from xs ys i = 1"
        using True gt by (subst compare_from.simps) (simp add: Let_def)
      have ne: "?g i \<noteq> ?h i"
        using gt js_less_irrefl by metis
      have "\<not> js_less (?g k) (?h k) \<or> \<not> (\<forall>j. i \<le> j \<and> j < k \<longrightarrow> ?g j = ?h j)" if "i \<le> k" for k
      proof (cases "k = i")
        case True
        then show ?thesis using gt js_less_asym by blast
      next
        case False
        then have "i < k" using that by simp
        then show ?thesis using ne by blast
      qed
      moreover have "\<exists>k\<ge>i. js_less (?h k) (?g k) \<and> (\<forall>j. i \<le> j \<and> j < k \<longrightarrow> ?g j = ?h j)"
        using gt by (intro exI[of _ i]) auto
      ultimately show ?thesis
        using r ne by auto
    next
      case lt
      have r: "compare_from xs ys i = - 1"
        using True lt by (subst compare_from.simps) (simp add: Let_def)
      have ne: "?g i \<noteq> ?h i"
        using lt js_less_irrefl by metis
      have "\<not> js_less (?h k) (?g k) \<or> \<not> (\<forall>j. i \<le> j \<and> j < k \<longrightarrow> ?g j = ?h j)" if "i \<le> k" for k
      proof (cases "k = i")
        case True
        then show ?thesis using lt by blast
      next
        case False
        then have "i < k" using that by simp
        then show ?thesis using ne by blast
      qed
      moreover have "\<exists>k\<ge>i. js_less (?g k) (?h k) \<and> (\<forall>j. i \<le> j \<and> j < k \<longrightarrow> ?g j = ?h j)"
        using lt by (intro exI[of _ i]) auto
      ultimately show ?thesis
        using r ne by auto
    next
      case eq
      have e: "?g i = ?h i"
        using eq js_less_total or_zero_not_NaN by blast
      have r: "compare_from xs ys i = compare_from xs ys (Suc i)"
        using True eq by (subst compare_from.simps) (simp add: Let_def)
      have ih: "?P (Suc i)"
        by (rule "1.IH"[OF True refl refl eq(1) eq(2)])
      have A: "(\<exists>k\<ge>i. js_less (?h k) (?g k) \<and> (\<forall>j. i \<le> j \<and> j < k \<longrightarrow> ?g j = ?h j)) \<longleftrightarrow>
               (\<exists>k\<ge>Suc i. js_less (?h k) (?g k) \<and> (\<forall>j. Suc i \<le> j \<and> j < k \<longrightarrow> ?g j = ?h j))"
        (is "?L \<longleftrightarrow> ?R")
      proof
        assume ?L
        then obtain k where k: "i \<le> k" "js_less (?h k) (?g k)" "\<forall>j. i \<le> j \<and> j < k \<longrightarrow> ?g j = ?h j"
          by blast
        have "k \<noteq> i" using k(2) eq(1) by blast
        then have "Suc i \<le> k" using k(1) by simp
        then show ?R using k by (intro exI[of _ k]) auto
      next
        assume ?R
        then obtain k where k: "Suc i \<le> k" "js_less (?h k) (?g k)" "\<forall>j. Suc i \<le> j \<and> j < k \<longrightarrow> ?g j = ?h j"
          by blast
        have "\<forall>j. i \<le> j \<and> j < k \<longrightarrow> ?g j = ?h j"
          using k(3) e by (metis Suc_leI le_neq_implies_less)
        then show ?L using k by (intro exI[of _ k]) auto
      qed
      have B: "(\<exists>k\<ge>i. js_less (?g k) (?h k) \<and> (\<forall>j. i \<le> j \<and> j < k \<longrightarrow> ?g j = ?h j)) \<longleftrightarrow>
               (\<exists>k\<ge>Suc i. js_less (?g k) (?h k) \<and> (\<forall>j. Suc i \<le> j \<and> j < k \<longrightarrow> ?g j = ?h j))"
        (is "?L \<longleftrightarrow> ?R")
      proof
        assume ?L
        then obtain k where k: "i \<le> k" "js_less (?g k) (?h k)" "\<forall>j. i \<le> j \<and> j < k \<longrightarrow> ?g j = ?h j"
          by blast
        have "k \<noteq> i" using k(2) eq(2) by blast
        then have "Suc i \<le> k" using k(1) by simp
        then show ?R using k by (intro exI[of _ k]) auto
      next
        assume ?R
        then obtain k where k: "Suc i \<le> k" "js_less (?g k) (?h k)" "\<forall>j. Suc i \<le> j \<and> j < k \<longrightarrow> ?g j = ?h j"
          by blast
        have "\<forall>j. i \<le> j \<and> j < k \<longrightarrow> ?g j = ?h j"
          using k(3) e by (metis Suc_leI le_neq_implies_less)
        then show ?L using k by (intro exI[of _ k]) auto
      qed
      have C: "(\<forall>k\<ge>i. ?g k = ?h k) \<longleftrightarrow> (\<forall>k\<ge>Suc i. ?g k = ?h k)"
        using e by (metis Suc_leI Suc_leD le_neq_implies_less)
      show ?thesis
        unfolding r A B C using ih .
    qed
  qed
qed

lemma or_zero_segment:
  "or_zero (at_index (map js_Number (split_on (CHR ''.'') (replace_v s))) i) = segment s i"
  by (cases "js_Number (split_on (CHR ''.'') (replace_v s) ! i)")
     (simp_all add: segment_def at_index_def)

section \<open>Version comparison: removing the prefix, splitting, converting\<close>

lemma replace_v_absent: "CHR ''v'' \<notin> set s \<Longrightarrow> replace_v s = s"
  by (simp add: replace_v_def remove1_idem)

lemma replace_v_first: "CHR ''v'' \<notin> set p \<Longrightarrow> replace_v (p @ CHR ''v'' # q) = p @ q"
  by (simp add: replace_v_def remove1_append)

lemma split_on_nonempty: "split_on sep s \<noteq> []"
  by (induction s) (simp_all split: list.splits)

lemma split_on_single: "sep \<notin> set p \<Longrightarrow> split_on sep p = [p]"
  by (induction p) auto

lemma split_on_first: "sep \<notin> set p \<Longrightarrow> split_on sep (p @ sep # q) = p # split_on sep q"
  by (induction p) auto

lemma split_on_chars:
  "c \<in> set s \<Longrightarrow> c \<noteq> sep \<Longrightarrow> \<exists>p\<in>set (split_on sep s). c \<in> set p"
proof (induction s)
  case Nil then show ?case by simp
next
  case (Cons d ds)
  obtain piece pieces where sp: "split_on sep ds = piece # pieces"
    using split_on_nonempty[of sep ds] by (cases "split_on sep ds") auto
  show ?case
  proof (cases "c = d")
    case True
    then show ?thesis using Cons.prems sp by simp
  next
    case False
    then have "c \<in> set ds" using Cons.prems by simp
    then obtain p where "p \<in> set (split_on sep ds)" "c \<in> set p"
      using Cons.IH Cons.prems by blast
    then show ?thesis using sp by (cases "d = sep") auto
  qed
qed

lemma radix_val_digits:
  "list_all is_digit t \<Longrightarrow>
     radix_val 10 acc t = Some (foldl (\<lambda>acc c. 10 * acc + digit_val c) acc t)"
proof (induction t arbitrary: acc)
  case Nil then show ?case by simp
next
  case (Cons c cs)
  then have c: "is_digit c" by simp
  then have h: "hex_val c = Some (digit_val c)" "digit_val c < 10"
    by (auto simp: hex_val_def is_digit_def digit_val_def Let_def)
  show ?case using Cons h by simp
qed

lemma compare_from_tl: "compare_from xs ys (Suc i) = compare_from (tl xs) (tl ys) i"
proof (induction "tl xs" "tl ys" i rule: compare_from.induct)
  case (1 i)
  have b: "Suc i < max (length xs) (length ys) \<longleftrightarrow> i < max (length (tl xs)) (length (tl ys))"
    by auto
  have a: "at_index xs (Suc i) = at_index (tl xs) i" "at_index ys (Suc i) = at_index (tl ys) i"
    by (cases xs; cases ys; simp add: at_index_def)+
  show ?case
    apply (subst compare_from.simps)
    apply (subst (2) compare_from.simps)
    using 1 by (simp add: b a Let_def)
qed

lemma js_Number_empty: "js_Number [] = Finite 0"
  by (simp add: js_Number_def trim_def)

lemma js_Number_digits_nearest:
  assumes "t \<noteq> []" and "list_all is_digit t"
  shows "js_Number t = round_double (of_int (spec_parse_segment t))"
proof -
  obtain c cs where t: "t = c # cs" using assms(1) by (cases t) auto
  then have c: "is_digit c" using assms(2) by simp
  then have sign: "c \<noteq> CHR ''-''" "c \<noteq> CHR ''+''" "c \<noteq> CHR ''I''"
    by (auto simp: is_digit_def)
  have inf: "t \<noteq> ''Infinity''" using t sign by auto
  have tw: "takeWhile is_digit t = t" "dropWhile is_digit t = []"
    using assms(2) by (simp_all add: list_all_iff)
  have val: "radix_val 10 0 t = Some (spec_parse_segment t)"
    using assms by (simp add: radix_val_digits spec_parse_segment_def)
  have dec: "str_decimal t = Some (of_int (spec_parse_segment t))"
    using assms(1) val by (simp add: str_decimal_def tw exponent_part_def pow10_def)
  have h: "hd t = c" using t by simp
  show ?thesis
    using assms(1) inf sign dec
    by (simp add: js_Number_def Let_def h trim_digits[OF assms(2)]
        radix_prefix_digits[OF assms(2)])
qed

lemma spec_parse_segment_nonneg: "0 \<le> spec_parse_segment t"
proof (cases "t \<noteq> [] \<and> list_all is_digit t")
  case True
  then have "radix_val 10 0 t = Some (spec_parse_segment t)"
    by (simp add: radix_val_digits spec_parse_segment_def)
  then show ?thesis using radix_val_nonneg[of 10 0 t] by simp
next
  case False
  then show ?thesis by (auto simp: spec_parse_segment_def)
qed

lemma js_Number_digits_exact:
  assumes "list_all is_digit t" and "spec_parse_segment t < 2 ^ 53"
  shows "js_Number t = Finite (of_int (spec_parse_segment t))"
proof (cases "t = []")
  case True
  then show ?thesis by (simp add: js_Number_empty spec_parse_segment_def)
next
  case False
  have "\<bar>spec_parse_segment t\<bar> < 2 ^ 53"
    using assms(2) spec_parse_segment_nonneg[of t] by simp
  then show ?thesis
    using js_Number_digits_nearest[OF False assms(1)] round_double_of_int by simp
qed

lemma compare_from_integers:
  "compare_from (map (\<lambda>n. Finite (of_int n)) xs) (map (\<lambda>n. Finite (of_int n)) ys) 0
     = spec_compare_segments xs ys"
proof (induction xs ys rule: spec_compare_segments.induct)
  case 1
  then show ?case by (subst compare_from.simps) simp
next
  case (2 x xs)
  then show ?case
    by (subst compare_from.simps) (simp add: at_index_def compare_from_tl Let_def)
next
  case (3 y ys)
  then show ?case
    by (subst compare_from.simps) (simp add: at_index_def compare_from_tl Let_def)
next
  case (4 x xs y ys)
  then show ?case
    by (subst compare_from.simps) (simp add: at_index_def compare_from_tl Let_def)
qed

lemma plain_segments_no_v:
  assumes "plain_segments r"
  shows "CHR ''v'' \<notin> set r"
proof
  assume "CHR ''v'' \<in> set r"
  then obtain p where p: "p \<in> set (split_on (CHR ''.'') r)" "CHR ''v'' \<in> set p"
    using split_on_chars[of "CHR ''v''" r "CHR ''.''"] by auto
  then have "list_all is_digit p"
    using assms by (simp add: plain_segments_def list_all_iff)
  then have "is_digit (CHR ''v'')" using p(2) by (simp add: list_all_iff)
  then show False by (simp add: is_digit_def)
qed

lemma plain_version_stripped:
  assumes "plain_version s"
  shows "s \<noteq> [] \<and> spec_strip_prefix s = replace_v s \<and> plain_segments (replace_v s)"
proof -
  obtain c cs where s: "s = c # cs" using assms by (cases s) (auto simp: plain_version_def)
  show ?thesis
  proof (cases "c = CHR ''v''")
    case True
    then show ?thesis
      using assms s by (simp add: plain_version_def spec_strip_prefix_def replace_v_def is_digit_def)
  next
    case False
    then have d: "is_digit c" "plain_segments s"
      using assms s by (simp_all add: plain_version_def)
    then show ?thesis
      using s replace_v_absent[OF plain_segments_no_v[OF d(2)]]
      by (simp add: spec_strip_prefix_def)
  qed
qed

lemma plain_segments_numbers:
  assumes "plain_segments r"
  shows "map js_Number (split_on (CHR ''.'') r) =
         map (\<lambda>n. Finite (of_int n)) (map spec_parse_segment (split_on (CHR ''.'') r))"
  using assms by (auto simp: plain_segments_def list_all_iff js_Number_digits_exact)

lemma compareVersions_plain:
  assumes "plain_version a" and "plain_version b"
  shows "compareVersions (Some a) (Some b) = spec_compare (Some a) (Some b)"
proof -
  note pa = plain_version_stripped[OF assms(1)]
  note pb = plain_version_stripped[OF assms(2)]
  have "compareVersions (Some a) (Some b) =
          compare_from (map js_Number (split_on (CHR ''.'') (replace_v a)))
                       (map js_Number (split_on (CHR ''.'') (replace_v b))) 0"
    using pa pb by (simp add: compareVersions_def falsy_def)
  also have "\<dots> = spec_compare_segments
          (map spec_parse_segment (split_on (CHR ''.'') (replace_v a)))
          (map spec_parse_segment (split_on (CHR ''.'') (replace_v b)))"
    unfolding plain_segments_numbers[OF pa[THEN conjunct2, THEN conjunct2]]
      plain_segments_numbers[OF pb[THEN conjunct2, THEN conjunct2]]
    by (rule compare_from_integers)
  also have "\<dots> = spec_compare (Some a) (Some b)"
    using pa pb by (simp add: spec_compare_def falsy_def)
  finally show ?thesis .
qed

lemma bitlen_between: "2 ^ n \<le> m \<Longrightarrow> m < 2 ^ Suc n \<Longrightarrow> bitlen m = int (Suc n)"
  using bitlen_twopow_add_eq[of "m - 2 ^ n" n] by simp

text \<open>Above \<open>2^53\<close> not every integer is a double: \<open>2^53 + 1\<close> rounds to \<open>2^53\<close>.\<close>

lemma round_double_tie:
  "round_double 9007199254740993 = Finite 9007199254740992"
  "round_double 9007199254740992 = Finite 9007199254740992"
proof -
  have b: "bitlen 9007199254740993 = 54" "bitlen 9007199254740992 = 54"
    using bitlen_between[of 53 9007199254740993] bitlen_between[of 53 9007199254740992]
    by simp_all
  have "floor_log2 (of_int 9007199254740993) = 53" "floor_log2 (of_int 9007199254740992) = 53"
    by (subst floor_log2_of_int; simp add: b)+
  then have fl: "floor_log2 9007199254740993 = 53" "floor_log2 9007199254740992 = 53"
    by simp_all
  have half: "\<lfloor>9007199254740993 / 2 :: rat\<rfloor> = 4503599627370496"
    by (rule floor_unique) simp_all
  show "round_double 9007199254740993 = Finite 9007199254740992"
    by (simp add: round_double_def fl Let_def pow2_def round_half_even_def half)
  show "round_double 9007199254740992 = Finite 9007199254740992"
    by (simp add: round_double_def fl Let_def pow2_def round_half_even_def)
qed

text \<open>
  Claim C4, as the code has it. \<open>compareVersions\<close> returns \<open>0\<close> when a string is empty.
  For two non-empty version strings it reads the segments of each (\<^const>\<open>segment\<close>: the
  first \<open>v\<close> of the string removed, the pieces between dots converted by \<open>Number\<close>, \<open>0\<close>
  for a piece that is missing or converts to \<open>NaN\<close>) and compares them index by index:
  the result is \<open>1\<close> exactly when at the first index where the segments differ the
  first string's is the larger, \<open>-1\<close> exactly when it is the smaller, and \<open>0\<close> exactly
  when all segments are equal.

  What is removed is the first lowercase \<open>v\<close>, wherever it stands: a string without one
  is left as it is, and in \<open>p @ ''v'' @ q\<close> with no \<open>v\<close> in \<open>p\<close> what remains is \<open>p @ q\<close>.
  The pieces are those between the dots: a string without a dot is one piece, and the
  first piece of \<open>p @ ''.'' @ q\<close> with no dot in \<open>p\<close> is \<open>p\<close>, followed by the pieces of
  \<open>q\<close>. A piece of decimal digits converts to the double nearest to the integer it
  denotes, which is that integer when it is below \<open>2^53\<close>; the empty piece converts to
  \<open>0\<close>.

  On two strings of the usual form (\<^const>\<open>plain_version\<close>) the result is the one of the
  algorithm the specification words.
\<close>

theorem compareVersions_first_difference:
  "(a = [] \<or> b = [] \<longrightarrow> compareVersions (Some a) (Some b) = 0) \<and>
   (a \<noteq> [] \<and> b \<noteq> [] \<longrightarrow>
      (compareVersions (Some a) (Some b) = 1 \<longleftrightarrow>
         (\<exists>k. js_less (segment b k) (segment a k) \<and> (\<forall>j<k. segment a j = segment b j))) \<and>
      (compareVersions (Some a) (Some b) = - 1 \<longleftrightarrow>
         (\<exists>k. js_less (segment a k) (segment b k) \<and> (\<forall>j<k. segment a j = segment b j))) \<and>
      (compareVersions (Some a) (Some b) = 0 \<longleftrightarrow> (\<forall>k. segment a k = segment b k))) \<and>
   (CHR ''v'' \<notin> set p \<longrightarrow> replace_v (p @ CHR ''v'' # q) = p @ q \<and> replace_v p = p) \<and>
   (CHR ''.'' \<notin> set p \<longrightarrow>
      split_on (CHR ''.'') (p @ CHR ''.'' # q) = p # split_on (CHR ''.'') q \<and>
      split_on (CHR ''.'') p = [p]) \<and>
   (list_all is_digit t \<longrightarrow>
      js_Number t = round_double (of_int (spec_parse_segment t)) \<and>
      (spec_parse_segment t < 2 ^ 53 \<longrightarrow> js_Number t = Finite (of_int (spec_parse_segment t)))) \<and>
   (plain_version a \<and> plain_version b \<longrightarrow>
      compareVersions (Some a) (Some b) = spec_compare (Some a) (Some b))"
proof (intro conjI impI)
  assume "a = [] \<or> b = []"
  then show "compareVersions (Some a) (Some b) = 0"
    by (auto simp: compareVersions_def falsy_def)
next
  assume ne: "a \<noteq> [] \<and> b \<noteq> []"
  note cases = compare_from_cases[of "map js_Number (split_on (CHR ''.'') (replace_v a))"
      "map js_Number (split_on (CHR ''.'') (replace_v b))" 0]
  show "compareVersions (Some a) (Some b) = 1 \<longleftrightarrow>
         (\<exists>k. js_less (segment b k) (segment a k) \<and> (\<forall>j<k. segment a j = segment b j))"
    using ne cases by (simp add: compareVersions_def falsy_def or_zero_segment)
  show "compareVersions (Some a) (Some b) = - 1 \<longleftrightarrow>
         (\<exists>k. js_less (segment a k) (segment b k) \<and> (\<forall>j<k. segment a j = segment b j))"
    using ne cases by (simp add: compareVersions_def falsy_def or_zero_segment)
  show "compareVersions (Some a) (Some b) = 0 \<longleftrightarrow> (\<forall>k. segment a k = segment b k)"
    using ne cases by (simp add: compareVersions_def falsy_def or_zero_segment)
next
  assume v: "CHR ''v'' \<notin> set p"
  show "replace_v (p @ CHR ''v'' # q) = p @ q"
    using v by (rule replace_v_first)
  show "replace_v p = p"
    using v by (rule replace_v_absent)
next
  assume d: "CHR ''.'' \<notin> set p"
  show "split_on (CHR ''.'') (p @ CHR ''.'' # q) = p # split_on (CHR ''.'') q"
    using d by (rule split_on_first)
  show "split_on (CHR ''.'') p = [p]"
    using d by (rule split_on_single)
next
  assume d: "list_all is_digit t"
  show "js_Number t = round_double (of_int (spec_parse_segment t))"
  proof (cases "t = []")
    case True
    then show ?thesis by (simp add: js_Number_empty spec_parse_segment_def)
  next
    case False
    then show ?thesis using d by (rule js_Number_digits_nearest)
  qed
  assume "spec_parse_segment t < 2 ^ 53"
  with d show "js_Number t = Finite (of_int (spec_parse_segment t))"
    by (rule js_Number_digits_exact)
next
  assume "plain_version a \<and> plain_version b"
  then show "compareVersions (Some a) (Some b) = spec_compare (Some a) (Some b)"
    using compareVersions_plain by blast
qed

theorem compareVersions_first_difference_witness:
  "''v1.10.0'' \<noteq> [] \<and> ''1.9.9'' \<noteq> [] \<and>
   compareVersions (Some ''v1.10.0'') (Some ''1.9.9'') = 1 \<and>
   (\<exists>k. js_less (segment ''1.9.9'' k) (segment ''v1.10.0'' k) \<and>
        (\<forall>j<k. segment ''v1.10.0'' j = segment ''1.9.9'' j)) \<and>
   CHR ''v'' \<notin> set ''1.'' \<and> replace_v ''1.v10.0'' = ''1.10.0'' \<and>
   replace_v ''v1.10.0'' = ''1.10.0'' \<and>
   CHR ''.'' \<notin> set ''1'' \<and>
   split_on (CHR ''.'') ''1.10.0'' = ''1'' # split_on (CHR ''.'') ''10.0'' \<and>
   list_all is_digit ''10'' \<and> spec_parse_segment ''10'' = 10 \<and>
   js_Number ''10'' = Finite 10 \<and>
   plain_version ''v1.10.0'' \<and> plain_version ''1.9.9'' \<and>
   spec_compare (Some ''v1.10.0'') (Some ''1.9.9'') = 1 \<and>
   compareVersions (Some '''') (Some ''1.9.9'') = 0"
proof -
  have r: "compareVersions (Some ''v1.10.0'') (Some ''1.9.9'') = 1"
    by (simp add: compare_eval)
  have d: "list_all is_digit ''10''" "spec_parse_segment ''10'' = 10"
    by (simp_all add: is_digit_def spec_parse_segment_def digit_val_def)
  have pl: "plain_version ''v1.10.0''" "plain_version ''1.9.9''"
    by (simp_all add: plain_version_def plain_segments_def is_digit_def spec_parse_segment_def
        digit_val_def)
  note inst = compareVersions_first_difference[of "''v1.10.0''" "''1.9.9''" "''1.''"
      "''10.0''" "''10''"]
  note head = compareVersions_first_difference[of "''v1.10.0''" "''1.9.9''" "[]"
      "''1.10.0''" "''10''",
      THEN conjunct2, THEN conjunct2, THEN conjunct1, rule_format, THEN conjunct1]
  note pieces = compareVersions_first_difference[of "''v1.10.0''" "''1.9.9''" "''1''"
      "''10.0''" "''10''",
      THEN conjunct2, THEN conjunct2, THEN conjunct2, THEN conjunct1, rule_format,
      THEN conjunct1]
  note empty = compareVersions_first_difference[of "''''" "''1.9.9''" "''1''" "''10.0''"
      "''10''", THEN conjunct1, rule_format]
  have seg: "\<exists>k. js_less (segment ''1.9.9'' k) (segment ''v1.10.0'' k) \<and>
        (\<forall>j<k. segment ''v1.10.0'' j = segment ''1.9.9'' j)"
    using inst r by simp
  have rv: "replace_v ''1.v10.0'' = ''1.10.0''"
    using inst by simp
  have hd: "replace_v ''v1.10.0'' = ''1.10.0''"
    using head by simp
  have sp: "split_on (CHR ''.'') ''1.10.0'' = ''1'' # split_on (CHR ''.'') ''10.0''"
    using pieces by simp
  have num: "js_Number ''10'' = Finite 10"
    using inst d by simp
  have agree: "spec_compare (Some ''v1.10.0'') (Some ''1.9.9'') = 1"
    using inst pl r by simp
  have e: "compareVersions (Some '''') (Some ''1.9.9'') = 0"
    using empty by simp
  show ?thesis
    using r d seg rv hd sp num pl agree e by simp
qed

text \<open>
  Claim C4 as the specification words it fails on the code, in four ways.

  \<^item> The code removes the letter \<open>v\<close> only. The capital prefix of \<open>V1.0.0\<close> stays, its
    first segment converts to \<open>NaN\<close> and counts as \<open>0\<close>: the string compares below
    \<open>v0.5.0\<close> and below \<open>v1.0.0\<close>; with one leading non-numeric character stripped it
    compares above the first and equal to the second.
  \<^item> The code removes the first \<open>v\<close> wherever it stands: \<open>1v.0\<close> is read as \<open>1.0\<close> and
    compares above \<open>0.5\<close>; as a non-numeric segment \<open>1v\<close> would count as \<open>0\<close>.
  \<^item> The code converts with \<open>Number\<close>: \<open>1e3\<close> is \<open>1000\<close> and compares above \<open>999\<close>; as
    a non-numeric segment it would count as \<open>0\<close>.
  \<^item> The code compares doubles: \<open>2^53 + 1\<close> converts to \<open>2^53\<close> and compares equal to
    it; as integers the first is the larger.
\<close>

theorem compareVersions_prefix_counterexample:
  "compareVersions (Some ''V1.0.0'') (Some ''v0.5.0'') = - 1 \<and>
   spec_compare (Some ''V1.0.0'') (Some ''v0.5.0'') = 1 \<and>
   compareVersions (Some ''v1.0.0'') (Some ''V1.0.0'') = 1 \<and>
   spec_compare (Some ''v1.0.0'') (Some ''V1.0.0'') = 0 \<and>
   compareVersions (Some ''1v.0'') (Some ''0.5'') = 1 \<and>
   spec_compare (Some ''1v.0'') (Some ''0.5'') = - 1 \<and>
   compareVersions (Some ''1e3'') (Some ''999'') = 1 \<and>
   spec_compare (Some ''1e3'') (Some ''999'') = - 1 \<and>
   compareVersions (Some ''9007199254740993'') (Some ''9007199254740992'') = 0 \<and>
   spec_compare (Some ''9007199254740993'') (Some ''9007199254740992'') = 1"
  by (simp add: compare_eval round_double_tie spec_compare_def spec_strip_prefix_def
      spec_parse_segment_def)

text \<open>
  Claim C5. The comparator gives the vectors of the specification, and \<open>0\<close> whenever
  either argument is empty or absent.
\<close>

theorem compareVersions_vectors:
  "compareVersions (Some ''v1.2.0'') (Some ''v1.3.0'') = - 1 \<and>
   compareVersions (Some ''1.10.0'') (Some ''1.9.9'') = 1 \<and>
   compareVersions (Some ''v2.0'') (Some ''2.0.0'') = 0 \<and>
   compareVersions (Some '''') (Some ''v1.0.0'') = 0 \<and>
   (falsy a \<or> falsy b \<longrightarrow> compareVersions a b = 0)"
  by (simp add: compare_eval)

theorem compareVersions_vectors_witness:
  "falsy None \<and> compareVersions None (Some ''v1.0.0'') = 0"
  using compareVersions_vectors[of None "Some ''v1.0.0''"] by (simp add: falsy_def)

section \<open>Running the methods\<close>

subsection \<open>Sequencing\<close>

lemma bind_ret [simp]: "bind (ret x) f = f x"
  by (simp add: bind_def ret_def)

lemma bind_throw [simp]: "bind (throw e) f = throw e"
  by (simp add: bind_def throw_def)

lemma bind_gets [simp]: "bind (gets g) f s = f (g s) s"
  by (simp add: bind_def gets_def)

lemma bind_assign [simp]:
  "bind (assign p g) f s = f () (s\<lparr>objects := (objects s)(p := g (objects s p))\<rparr>)"
  by (simp add: bind_def assign_def)

lemma try_catch_ret [simp]: "try_catch (ret x) h = ret x"
  by (simp add: try_catch_def ret_def)

lemma try_catch_throw [simp]: "try_catch (throw e) h = h e"
  by (simp add: try_catch_def throw_def)

lemma ret_eq [simp]: "ret x s = (r, s') \<longleftrightarrow> r = Inr x \<and> s' = s"
  by (auto simp: ret_def)

lemma throw_eq [simp]: "throw e s = (r, s') \<longleftrightarrow> r = Inl e \<and> s' = s"
  by (auto simp: throw_def)

lemma bind_InrE:
  assumes "bind m f s = (Inr y, s')"
  obtains x s1 where "m s = (Inr x, s1)" and "f x s1 = (Inr y, s')"
  using assms by (auto simp: bind_def split: prod.splits sum.splits)

lemma extern_InrE:
  assumes "extern c f s = (Inr x, s')"
  obtains w where "f (world s) = (Inr x, w)" and "s' = s\<lparr>world := w, calls := calls s @ [c]\<rparr>"
  using assms by (auto simp: extern_def split: prod.splits)

lemma try_catch_cases:
  assumes "try_catch m h s = (r, s')"
  obtains (returned) x where "m s = (Inr x, s')" and "r = Inr x"
        | (caught) e s1 where "m s = (Inl e, s1)" and "h e s1 = (r, s')"
  using assms by (auto simp: try_catch_def split: prod.splits sum.splits)

subsection \<open>Methods that never throw\<close>

lemma never_throws_ret: "never_throws (ret x)"
  by (simp add: never_throws_def ret_def)

lemma never_throws_try_catch:
  assumes "\<And>e. never_throws (h e)"
  shows "never_throws (try_catch m h)"
proof -
  have "\<exists>x s'. try_catch m h s = (Inr x, s')" for s
  proof (cases "m s")
    case (Pair r s1)
    then show ?thesis
      using assms by (cases r) (auto simp: try_catch_def never_throws_def)
  qed
  then show ?thesis by (simp add: never_throws_def)
qed

subsection \<open>Methods that touch the world only\<close>

lemma world_only_ret: "world_only (ret x)"
proof -
  have "ret x s = (Inr x, s\<lparr>world := world s, calls := calls s @ []\<rparr>)" for s :: "'a manager"
    by (simp add: ret_def)
  then show ?thesis
    unfolding world_only_def by (metis filter.simps(1))
qed

lemma world_only_throw: "world_only (throw e)"
proof -
  have "throw e s = (Inl e, s\<lparr>world := world s, calls := calls s @ []\<rparr>)" for s :: "'a manager"
    by (simp add: throw_def)
  then show ?thesis
    unfolding world_only_def by (metis filter.simps(1))
qed

lemma world_only_gets: "world_only (gets g)"
proof -
  have "gets g s = (Inr (g s), s\<lparr>world := world s, calls := calls s @ []\<rparr>)" for s :: "'a manager"
    by (simp add: gets_def)
  then show ?thesis
    unfolding world_only_def by (metis filter.simps(1))
qed

lemma world_only_extern:
  assumes "\<not> is_notification c"
  shows "world_only (extern c f)"
proof -
  have "\<exists>r w cs. extern c f s = (r, s\<lparr>world := w, calls := calls s @ cs\<rparr>) \<and>
          filter is_notification cs = []" for s
  proof (cases "f (world s)")
    case (Pair r w)
    then have "extern c f s = (r, s\<lparr>world := w, calls := calls s @ [c]\<rparr>)"
      by (simp add: extern_def)
    moreover have "filter is_notification [c] = []"
      using assms by simp
    ultimately show ?thesis by blast
  qed
  then show ?thesis by (simp add: world_only_def)
qed

lemma world_only_bind:
  assumes m: "world_only m" and f: "\<And>x. world_only (f x)"
  shows "world_only (bind m f)"
proof -
  have "\<exists>r w cs. bind m f s = (r, s\<lparr>world := w, calls := calls s @ cs\<rparr>) \<and>
          filter is_notification cs = []" for s
  proof -
    obtain r1 w1 cs1 where 1: "m s = (r1, s\<lparr>world := w1, calls := calls s @ cs1\<rparr>)"
        and n1: "filter is_notification cs1 = []"
      using m unfolding world_only_def by blast
    show ?thesis
    proof (cases r1)
      case (Inl e)
      then have "bind m f s = (Inl e, s\<lparr>world := w1, calls := calls s @ cs1\<rparr>)"
        using 1 by (simp add: bind_def)
      then show ?thesis using n1 by blast
    next
      case (Inr x)
      let ?s1 = "s\<lparr>world := w1, calls := calls s @ cs1\<rparr>"
      obtain r2 w2 cs2 where 2: "f x ?s1 = (r2, ?s1\<lparr>world := w2, calls := calls ?s1 @ cs2\<rparr>)"
          and n2: "filter is_notification cs2 = []"
        using f[of x] unfolding world_only_def by blast
      have "bind m f s = (r2, s\<lparr>world := w2, calls := calls s @ (cs1 @ cs2)\<rparr>)"
        using 1 2 Inr by (simp add: bind_def)
      moreover have "filter is_notification (cs1 @ cs2) = []"
        using n1 n2 by simp
      ultimately show ?thesis by blast
    qed
  qed
  then show ?thesis by (simp add: world_only_def)
qed

lemma world_only_try_catch:
  assumes m: "world_only m" and h: "\<And>e. world_only (h e)"
  shows "world_only (try_catch m h)"
proof -
  have "\<exists>r w cs. try_catch m h s = (r, s\<lparr>world := w, calls := calls s @ cs\<rparr>) \<and>
          filter is_notification cs = []" for s
  proof -
    obtain r1 w1 cs1 where 1: "m s = (r1, s\<lparr>world := w1, calls := calls s @ cs1\<rparr>)"
        and n1: "filter is_notification cs1 = []"
      using m unfolding world_only_def by blast
    show ?thesis
    proof (cases r1)
      case (Inr x)
      then have "try_catch m h s = (Inr x, s\<lparr>world := w1, calls := calls s @ cs1\<rparr>)"
        using 1 by (simp add: try_catch_def)
      then show ?thesis using n1 by blast
    next
      case (Inl e)
      let ?s1 = "s\<lparr>world := w1, calls := calls s @ cs1\<rparr>"
      obtain r2 w2 cs2 where 2: "h e ?s1 = (r2, ?s1\<lparr>world := w2, calls := calls ?s1 @ cs2\<rparr>)"
          and n2: "filter is_notification cs2 = []"
        using h[of e] unfolding world_only_def by blast
      have "try_catch m h s = (r2, s\<lparr>world := w2, calls := calls s @ (cs1 @ cs2)\<rparr>)"
        using 1 2 Inl by (simp add: try_catch_def)
      moreover have "filter is_notification (cs1 @ cs2) = []"
        using n1 n2 by simp
      ultimately show ?thesis by blast
    qed
  qed
  then show ?thesis by (simp add: world_only_def)
qed

lemma world_only_if:
  "world_only a \<Longrightarrow> world_only b \<Longrightarrow> world_only (if c then a else b)"
  by simp

lemmas world_only_intros =
  world_only_try_catch world_only_bind world_only_ret world_only_throw world_only_gets
  world_only_extern world_only_if

lemma world_only_getLatestVersion: "world_only (getLatestVersion env owner' repo')"
  unfolding getLatestVersion_def Let_def
  by (intro world_only_intros) (auto split: jsvalue.splits option.splits intro: world_only_intros)

lemma never_throws_getLatestVersion: "never_throws (getLatestVersion env owner' repo')"
  unfolding getLatestVersion_def by (intro never_throws_try_catch never_throws_ret)

lemma world_only_createBackup: "world_only (createBackup env p)"
  unfolding createBackup_def Let_def
  by (intro world_only_intros) simp_all

lemma never_throws_createBackup: "never_throws (createBackup env p)"
  unfolding createBackup_def by (intro never_throws_try_catch never_throws_ret)

lemma world_only_getRelativePath: "world_only (getRelativePath env f)"
  unfolding getRelativePath_def by (rule world_only_gets)

lemma world_only_performPluginUpdate: "world_only (performPluginUpdate env p lv)"
  unfolding performPluginUpdate_def Let_def
  by (intro world_only_intros world_only_createBackup world_only_getRelativePath) simp_all

lemma never_throws_performPluginUpdate: "never_throws (performPluginUpdate env p lv)"
  unfolding performPluginUpdate_def by (intro never_throws_try_catch never_throws_ret)

subsection \<open>What stays as it was\<close>

lemma world_only_frame:
  assumes "world_only m" and "m s = (r, s')"
  shows "objects s' = objects s \<and> registeredPlugins s' = registeredPlugins s \<and>
         updateSummary s' = updateSummary s \<and> discordNotifier s' = discordNotifier s \<and>
         config s' = config s \<and> timeouts s' = timeouts s \<and>
         filter is_notification (calls s') = filter is_notification (calls s)"
proof -
  obtain r1 w cs where "m s = (r1, s\<lparr>world := w, calls := calls s @ cs\<rparr>)"
      and "filter is_notification cs = []"
    using assms(1) unfolding world_only_def by blast
  with assms(2) show ?thesis by auto
qed

lemma resolved_frame:
  assumes "(if falsy lv0
            then getLatestVersion env (owner (objects s p)) (repo (objects s p)) s
            else (Inr lv0, s)) = (r, s0)"
  shows "objects s0 = objects s \<and> registeredPlugins s0 = registeredPlugins s \<and>
         updateSummary s0 = updateSummary s \<and> discordNotifier s0 = discordNotifier s \<and>
         config s0 = config s \<and> timeouts s0 = timeouts s \<and>
         filter is_notification (calls s0) = filter is_notification (calls s)"
proof (cases "falsy lv0")
  case True
  with assms show ?thesis
    using world_only_frame[OF world_only_getLatestVersion] by simp
next
  case False
  with assms show ?thesis by auto
qed

lemma resolve_latest_frame:
  assumes "resolve_latest env p lv0 s = (r, s0)"
  shows "objects s0 = objects s \<and> registeredPlugins s0 = registeredPlugins s \<and>
         updateSummary s0 = updateSummary s \<and> discordNotifier s0 = discordNotifier s \<and>
         config s0 = config s \<and> timeouts s0 = timeouts s \<and>
         filter is_notification (calls s0) = filter is_notification (calls s)"
  using resolved_frame[of lv0 env s p r s0] assms by (simp add: resolve_latest_def)

subsection \<open>The transaction and the check of one plugin, branch by branch\<close>

lemma gets_eq [simp]: "gets g s = (r, s') \<longleftrightarrow> r = Inr (g s) \<and> s' = s"
  by (auto simp: gets_def)

lemma performPluginUpdate_updated:
  assumes run: "performPluginUpdate env p lv s = (Inr r, s')" and up: "updated r"
  shows "\<exists>data w1 b sb w3 c w4.
           axios_get env (download_url env (world s) (objects s p) lv) (world s) = (Inr data, w1) \<and>
           createBackup env p
             (s\<lparr>world := w1,
                calls := calls s @ [HttpGet (download_url env (world s) (objects s p) lv)]\<rparr>)
             = (Inr b, sb) \<and>
           writeFileSync env (filePath (objects s p)) data (world sb) = (Inr (), w3) \<and>
           readFileSync env (filePath (objects s p)) w3 = (Inr c, w4) \<and>
           data = Str c \<and>
           r = \<lparr>updated = True, newVersion = Some lv, oldVersion = version (objects s p),
                backupPath = b, failure = None\<rparr> \<and>
           s' = sb\<lparr>world := w4,
                   calls := calls sb @ [WriteFileSync (filePath (objects s p)) data,
                                        ReadFileSync (filePath (objects s p))]\<rparr>"
  using run unfolding performPluginUpdate_def
proof (cases rule: try_catch_cases)
  case (caught e s1)
  then show ?thesis using up by auto
next
  case (returned x)
  from returned(1) show ?thesis
    unfolding getRelativePath_def Let_def
    apply (simp only: bind_gets)
    apply (erule bind_InrE)
    apply (erule extern_InrE)
    apply (erule bind_InrE)
    apply (erule bind_InrE)
    apply (erule extern_InrE)
    apply (erule bind_InrE)
    apply (erule extern_InrE)
    apply (insert returned(2))
    apply (auto simp: download_url_def split: if_splits)
    done
qed


lemma bind_returns: "m s = (Inr x, s') \<Longrightarrow> bind m f s = f x s'"
  by (simp add: bind_def)

lemma bind_throws: "m s = (Inl e, s') \<Longrightarrow> bind m f s = (Inl e, s')"
  by (simp add: bind_def)

lemma bind_assoc: "bind (bind m f) g = bind m (\<lambda>x. bind (f x) g)"
  by (auto simp: bind_def fun_eq_iff split: prod.splits sum.splits)

lemma bind_extern:
  "bind (extern c f) g s =
     (case f (world s) of
        (Inl e, w) \<Rightarrow> (Inl e, s\<lparr>world := w, calls := calls s @ [c]\<rparr>)
      | (Inr x, w) \<Rightarrow> g x (s\<lparr>world := w, calls := calls s @ [c]\<rparr>))"
  by (simp add: bind_def extern_def split: prod.splits sum.splits)

lemma assign_apply:
  "assign p g s = (Inr (), s\<lparr>objects := (objects s)(p := g (objects s p))\<rparr>)"
  by (simp add: assign_def)

lemma falsy_simps [simp]: "falsy None" "falsy (Some x) \<longleftrightarrow> x = []"
  by (simp_all add: falsy_def)

lemma extern_run: "f (world s) = (r, w) \<Longrightarrow> extern c f s = (r, s\<lparr>world := w, calls := calls s @ [c]\<rparr>)"
  by (simp add: extern_def)

lemma resolve_step:
  "bind (if falsy lv0
         then bind (gets (\<lambda>s. objects s p)) (\<lambda>plugin.
                getLatestVersion env (owner plugin) (repo plugin))
         else ret lv0) f s =
   (case (if falsy lv0
          then getLatestVersion env (owner (objects s p)) (repo (objects s p)) s
          else (Inr lv0, s)) of
      (Inl e, s') \<Rightarrow> (Inl e, s')
    | (Inr x, s') \<Rightarrow> f x s')"
  by (simp add: bind_def gets_def ret_def)

lemma checkPluginUpdate_absent:
  assumes "(if falsy lv0
            then getLatestVersion env (owner (objects s p)) (repo (objects s p)) s
            else (Inr lv0, s)) = (Inr lv, s0)"
    and "falsy lv"
  shows "checkPluginUpdate env p lv0 s =
           (Inr (), s0\<lparr>objects := (objects s0)(p := (objects s0 p)
              \<lparr>error := Some ''Could not determine latest version'',
               lastChecked := Some (new_Date env (world s0))\<rparr>)\<rparr>)"
  unfolding checkPluginUpdate_def try_catch_def resolve_step assms(1)
  using assms(2) by (simp add: assign_apply)

lemma checkPluginUpdate_current:
  assumes "(if falsy lv0
            then getLatestVersion env (owner (objects s p)) (repo (objects s p)) s
            else (Inr lv0, s)) = (Inr lv, s0)"
    and "\<not> falsy lv"
    and "\<not> compareVersions (version (objects s0 p)) lv < 0"
  shows "checkPluginUpdate env p lv0 s =
           (Inr (), addPluginChecked (name (objects s0 p))
              (s0\<lparr>objects := (objects s0)(p := (objects s0 p)
                 \<lparr>latestVersion := lv, lastChecked := Some (new_Date env (world s0)),
                  error := None\<rparr>)\<rparr>))"
  unfolding checkPluginUpdate_def try_catch_def resolve_step assms(1)
  using assms(2,3) by simp

lemma checkPluginUpdate_failed:
  assumes "(if falsy lv0
            then getLatestVersion env (owner (objects s p)) (repo (objects s p)) s
            else (Inr lv0, s)) = (Inr (Some lv), s0)"
    and "lv \<noteq> []"
    and "compareVersions (version (objects s0 p)) (Some lv) < 0"
    and "performPluginUpdate env p lv
           (s0\<lparr>objects := (objects s0)(p := (objects s0 p)
              \<lparr>latestVersion := Some lv, lastChecked := Some (new_Date env (world s0)),
               error := None, needsUpdate := True\<rparr>)\<rparr>) = (Inr r, s2)"
    and "\<not> updated r"
  shows "checkPluginUpdate env p lv0 s =
           (Inr (), addPluginChecked (name (objects s2 p))
              (s2\<lparr>objects := (objects s2)(p := (objects s2 p)
                 \<lparr>error := (if falsy (failure r) then Some ''Update failed''
                             else failure r)\<rparr>)\<rparr>))"
  unfolding checkPluginUpdate_def try_catch_def resolve_step assms(1)
  using assms(2,3,5)
  by (simp add: bind_assoc assign_apply
      bind_returns[where m="performPluginUpdate env p lv", OF assms(4)])

lemma checkPluginUpdate_applied_silent:
  assumes "(if falsy lv0
            then getLatestVersion env (owner (objects s p)) (repo (objects s p)) s
            else (Inr lv0, s)) = (Inr (Some lv), s0)"
    and "lv \<noteq> []"
    and "compareVersions (version (objects s0 p)) (Some lv) < 0"
    and "performPluginUpdate env p lv
           (s0\<lparr>objects := (objects s0)(p := (objects s0 p)
              \<lparr>latestVersion := Some lv, lastChecked := Some (new_Date env (world s0)),
               error := None, needsUpdate := True\<rparr>)\<rparr>) = (Inr r, s2)"
    and "updated r"
    and "\<not> discordNotifier s2"
  shows "checkPluginUpdate env p lv0 s =
           (Inr (), addPluginChecked (name (objects s2 p))
              (s2\<lparr>objects := (objects s2)(p := (objects s2 p)
                 \<lparr>lastUpdated := Some (new_Date env (world s2)),
                  version := Some lv, needsUpdate := False\<rparr>)\<rparr>))"
  unfolding checkPluginUpdate_def try_catch_def resolve_step assms(1)
  using assms(2,3,5,6)
  by (simp add: bind_assoc assign_apply
      bind_returns[where m="performPluginUpdate env p lv", OF assms(4)])

lemma checkPluginUpdate_applied_notified:
  assumes "(if falsy lv0
            then getLatestVersion env (owner (objects s p)) (repo (objects s p)) s
            else (Inr lv0, s)) = (Inr (Some lv), s0)"
    and "lv \<noteq> []"
    and "compareVersions (version (objects s0 p)) (Some lv) < 0"
    and "performPluginUpdate env p lv
           (s0\<lparr>objects := (objects s0)(p := (objects s0 p)
              \<lparr>latestVersion := Some lv, lastChecked := Some (new_Date env (world s0)),
               error := None, needsUpdate := True\<rparr>)\<rparr>) = (Inr r, s2)"
    and "updated r"
    and "discordNotifier s2"
    and "onPluginUpdated env (name (objects s2 p)) (oldVersion r) lv (backupPath r) (world s2)
           = (res, w)"
  shows "checkPluginUpdate env p lv0 s =
           (case res of
              Inr u \<Rightarrow>
                (Inr (), addPluginChecked (name (objects s2 p))
                   (s2\<lparr>objects := (objects s2)(p := (objects s2 p)
                        \<lparr>lastUpdated := Some (new_Date env (world s2)),
                         version := Some lv, needsUpdate := False\<rparr>),
                       world := w,
                       calls := calls s2 @ [OnPluginUpdated (name (objects s2 p)) (oldVersion r)
                                             lv (backupPath r)]\<rparr>))
            | Inl e \<Rightarrow>
                (Inr (), s2\<lparr>objects := (objects s2)(p := (objects s2 p)
                        \<lparr>lastUpdated := Some (new_Date env (world s2)),
                         version := Some lv, needsUpdate := False,
                         error := message e, lastChecked := Some (new_Date env w)\<rparr>),
                       world := w,
                       calls := calls s2 @ [OnPluginUpdated (name (objects s2 p)) (oldVersion r)
                                             lv (backupPath r)]\<rparr>))"
  unfolding checkPluginUpdate_def try_catch_def resolve_step assms(1)
  using assms(2,3,5,6,7)
  by (cases res)
     (simp_all add: bind_assoc bind_extern assign_apply
        bind_returns[where m="performPluginUpdate env p lv", OF assms(4)])

lemma ret_apply [simp]: "ret x s = (Inr x, s)"
  by (simp add: ret_def)

lemma throw_apply [simp]: "throw e s = (Inl e, s)"
  by (simp add: throw_def)

lemma performPluginUpdate_unfold:
  "performPluginUpdate env p lv s =
     try_catch
       (bind (extern (HttpGet (download_url env (world s) (objects s p) lv))
                (axios_get env (download_url env (world s) (objects s p) lv))) (\<lambda>updatedCode.
        bind (createBackup env p) (\<lambda>backupPath'.
        bind (extern (WriteFileSync (filePath (objects s p)) updatedCode)
                (writeFileSync env (filePath (objects s p)) updatedCode)) (\<lambda>_.
        bind (extern (ReadFileSync (filePath (objects s p)))
                (readFileSync env (filePath (objects s p)))) (\<lambda>verifyCode.
        if Str verifyCode \<noteq> updatedCode
        then throw (Error (Some ''File verification failed - update was not written correctly'')
                      None)
        else ret \<lparr>updated = True, newVersion = Some lv,
                  oldVersion = version (objects s p), backupPath = backupPath',
                  failure = None\<rparr>)))))
       (\<lambda>error. ret \<lparr>updated = False, newVersion = None, oldVersion = None,
                     backupPath = None, failure = message error\<rparr>) s"
  by (simp add: performPluginUpdate_def getRelativePath_def download_url_def try_catch_def Let_def)

text \<open>The result of the transaction is decided by the first aborting step that fails.\<close>

lemma performPluginUpdate_outcome:
  "fst (performPluginUpdate env p lv s) =
     (case transaction_failure env p lv s of
        Some e \<Rightarrow> Inr \<lparr>updated = False, newVersion = None, oldVersion = None,
                       backupPath = None, failure = message e\<rparr>
      | None \<Rightarrow> Inr \<lparr>updated = True, newVersion = Some lv,
                       oldVersion = version (objects s p),
                       backupPath = projr (fst (createBackup env p
                         (s\<lparr>world := snd (axios_get env
                                (download_url env (world s) (objects s p) lv) (world s)),
                            calls := calls s @
                              [HttpGet (download_url env (world s) (objects s p) lv)]\<rparr>))),
                       failure = None\<rparr>)"
proof -
  let ?url = "download_url env (world s) (objects s p) lv"
  let ?f = "filePath (objects s p)"
  obtain fetched w1 where fetch: "axios_get env ?url (world s) = (fetched, w1)"
    by (cases "axios_get env ?url (world s)")
  let ?s1 = "s\<lparr>world := w1, calls := calls s @ [HttpGet ?url]\<rparr>"
  obtain b sb where backup: "createBackup env p ?s1 = (Inr b, sb)"
    using never_throws_createBackup[of env p] unfolding never_throws_def by blast
  have osb: "objects sb = objects s"
    using world_only_frame[OF world_only_createBackup backup] by simp
  obtain written w3 where wr:
    "writeFileSync env ?f (projr fetched) (world sb) = (written, w3)"
    by (cases "writeFileSync env ?f (projr fetched) (world sb)")
  obtain readback w4 where rd: "readFileSync env ?f w3 = (readback, w4)"
    by (cases "readFileSync env ?f w3")
  show ?thesis
  proof (cases fetched)
    case (Inl e)
    then show ?thesis
      using fetch
      unfolding performPluginUpdate_unfold transaction_failure_def Let_def try_catch_def
      by (simp add: bind_extern)
  next
    case data: (Inr updatedCode)
    show ?thesis
    proof (cases written)
      case (Inl e)
      then show ?thesis
        using fetch data backup wr osb
        unfolding performPluginUpdate_unfold transaction_failure_def Let_def try_catch_def
        by (simp add: bind_extern bind_returns[where m="createBackup env p", OF backup])
    next
      case w: (Inr u)
      show ?thesis
      proof (cases readback)
        case (Inl e)
        then show ?thesis
          using fetch data backup wr w rd osb
          unfolding performPluginUpdate_unfold transaction_failure_def Let_def try_catch_def
          by (simp add: bind_extern bind_returns[where m="createBackup env p", OF backup])
      next
        case (Inr verifyCode)
        then show ?thesis
          using fetch data backup wr w rd osb
          unfolding performPluginUpdate_unfold transaction_failure_def Let_def try_catch_def
          by (simp add: bind_extern bind_returns[where m="createBackup env p", OF backup])
      qed
    qed
  qed
qed

subsection \<open>The remote version\<close>

lemma getLatestVersion_run:
  "\<exists>v. getLatestVersion env owner' repo' s =
         (Inr v, s\<lparr>world := snd (axios_get env (release_url owner' repo') (world s)),
                   calls := calls s @ [HttpGet (release_url owner' repo')]\<rparr>) \<and>
       v \<noteq> Some []"
proof (cases "axios_get env (release_url owner' repo') (world s)")
  case (Pair fetched w)
  then show ?thesis
    unfolding getLatestVersion_def Let_def try_catch_def
    by (cases fetched)
       (auto simp: bind_extern split: jsvalue.splits option.splits)
qed

lemma getLatestVersion_failed:
  assumes "fst (axios_get env (release_url owner' repo') (world s)) = Inl e"
  shows "fst (getLatestVersion env owner' repo' s) = Inr None"
proof (cases "axios_get env (release_url owner' repo') (world s)")
  case (Pair fetched w)
  then show ?thesis
    using assms unfolding getLatestVersion_def Let_def try_catch_def
    by (simp add: bind_extern)
qed

lemma getLatestVersion_result:
  "fst (getLatestVersion env owner' repo' s) =
     Inr (case fst (axios_get env (release_url owner' repo') (world s)) of
            Inr (Obj (Some tag)) \<Rightarrow> if tag = [] then None else Some tag
          | _ \<Rightarrow> None)"
proof (cases "axios_get env (release_url owner' repo') (world s)")
  case (Pair fetched w)
  then show ?thesis
    unfolding getLatestVersion_def Let_def try_catch_def
    by (cases fetched)
       (auto simp: bind_extern split: jsvalue.splits option.splits)
qed

subsection \<open>The check of a repository group\<close>

lemma checkRepositoryUpdates_absent:
  assumes "getLatestVersion env (template (at_index (split_on (CHR ''/'') repoKey) 0))
             (template (at_index (split_on (CHR ''/'') repoKey) 1)) s = (Inr lv, s0)"
    and "falsy lv"
  shows "checkRepositoryUpdates env repoKey plugins s = (Inr (), s0)"
  unfolding checkRepositoryUpdates_def Let_def try_catch_def
  apply (subst bind_returns[where m="getLatestVersion env
        (template (at_index (split_on (CHR ''/'') repoKey) 0))
        (template (at_index (split_on (CHR ''/'') repoKey) 1))", OF assms(1)])
  using assms(2) by simp

subsection \<open>The grouping of a cycle\<close>

lemma grouped_update_new:
  "map_of repos k' = None \<Longrightarrow> grouped repos k p \<Longrightarrow> grouped (AList.update k' [] repos) k p"
proof (induction repos)
  case Nil
  then show ?case by (simp add: grouped_def)
next
  case (Cons e repos)
  then show ?case
    by (cases e) (auto simp: grouped_def split: if_splits)
qed

lemma grouped_map_entry:
  "grouped repos k p \<Longrightarrow> grouped (AList.map_entry k' (\<lambda>ps. ps @ [q]) repos) k p"
proof (induction repos)
  case Nil
  then show ?case by (simp add: grouped_def)
next
  case (Cons e repos)
  then show ?case
    by (cases e) (auto simp: grouped_def)
qed

lemma grouped_entry_added:
  "k \<in> fst ` set repos \<Longrightarrow> grouped (AList.map_entry k (\<lambda>ps. ps @ [q]) repos) k q"
proof (induction repos)
  case Nil
  then show ?case by simp
next
  case (Cons e repos)
  then show ?case
    by (cases e) (auto simp: grouped_def)
qed

lemma key_present_after_update:
  "k \<in> fst ` set (if map_of repos k = None then AList.update k [] repos else repos)"
  by (auto simp: dom_update map_of_eq_None_iff)

lemma group_plugins_step:
  assumes "key = owner (objs q) @ ''/'' @ repo (objs q)"
  shows "group_plugins objs ((n, q) # reg) repos =
           group_plugins objs reg (AList.map_entry key (\<lambda>ps. ps @ [q])
             (if map_of repos key = None then AList.update key [] repos else repos))"
  unfolding assms by (simp add: Let_def)

lemma group_plugins_keeps:
  "grouped repos k p \<Longrightarrow> grouped (group_plugins objs reg repos) k p"
proof (induction reg arbitrary: repos)
  case Nil
  then show ?case by simp
next
  case (Cons e reg)
  obtain n q where e: "e = (n, q)" by (cases e)
  define key where "key = owner (objs q) @ ''/'' @ repo (objs q)"
  let ?r1 = "if map_of repos key = None then AList.update key [] repos else repos"
  have "grouped ?r1 k p"
    using Cons.prems grouped_update_new by auto
  then have "grouped (AList.map_entry key (\<lambda>ps. ps @ [q]) ?r1) k p"
    by (rule grouped_map_entry)
  then have "grouped (group_plugins objs reg (AList.map_entry key (\<lambda>ps. ps @ [q]) ?r1)) k p"
    by (rule Cons.IH)
  then show ?case
    unfolding e group_plugins_step[where objs=objs and q=q, OF key_def] .
qed

lemma group_plugins_covers:
  "(n, p) \<in> set reg \<Longrightarrow>
   grouped (group_plugins objs reg repos) (owner (objs p) @ ''/'' @ repo (objs p)) p"
proof (induction reg arbitrary: repos)
  case Nil
  then show ?case by simp
next
  case (Cons e reg)
  obtain m q where e: "e = (m, q)" by (cases e)
  define key where "key = owner (objs q) @ ''/'' @ repo (objs q)"
  let ?r1 = "if map_of repos key = None then AList.update key [] repos else repos"
  let ?r2 = "AList.map_entry key (\<lambda>ps. ps @ [q]) ?r1"
  show ?case
  proof (cases "(n, p) = e")
    case True
    then have qp: "q = p" using e by simp
    have "grouped ?r2 key q"
      by (rule grouped_entry_added[OF key_present_after_update])
    then have "grouped (group_plugins objs reg ?r2) key q"
      by (rule group_plugins_keeps)
    then have "grouped (group_plugins objs (e # reg) repos) key q"
      unfolding e group_plugins_step[where objs=objs and q=q, OF key_def] .
    then show ?thesis
      unfolding key_def qp .
  next
    case False
    then have "(n, p) \<in> set reg" using Cons.prems by simp
    then have "grouped (group_plugins objs reg ?r2)
        (owner (objs p) @ ''/'' @ repo (objs p)) p"
      by (rule Cons.IH)
    then show ?thesis
      unfolding e group_plugins_step[where objs=objs and q=q, OF key_def] .
  qed
qed

lemma schedule_groups_covers:
  "(k, ps) \<in> set repos \<Longrightarrow>
   \<exists>delay. (delay, RepositoryCheck k ps) \<in> set (schedule_groups stagger d repos)"
proof (induction repos arbitrary: d)
  case Nil
  then show ?case by simp
next
  case (Cons e repos)
  obtain k' ps' where e: "e = (k', ps')" by (cases e)
  show ?case
  proof (cases "(k, ps) = e")
    case True
    then show ?thesis using e by auto
  next
    case False
    then have "(k, ps) \<in> set repos" using Cons.prems by simp
    from Cons.IH[OF this, of "d + stagger"] show ?thesis
      using e by auto
  qed
qed

lemma checkAllUpdates_schedules_every_plugin:
  assumes "enabled (config s)" and "(n, p) \<in> set (registeredPlugins s)"
  shows "\<exists>delay ps. (delay, RepositoryCheck (owner (objects s p) @ ''/'' @ repo (objects s p)) ps)
            \<in> set (timeouts (checkAllUpdates env s)) \<and> p \<in> set ps"
proof -
  have ne: "length (registeredPlugins s) \<noteq> 0" using assms(2) by auto
  obtain ps where ps: "(owner (objects s p) @ ''/'' @ repo (objects s p), ps)
      \<in> set (group_plugins (objects s) (registeredPlugins s) [])" "p \<in> set ps"
    using group_plugins_covers[OF assms(2), of "objects s" "[]"] unfolding grouped_def by blast
  obtain delay where "(delay, RepositoryCheck (owner (objects s p) @ ''/'' @ repo (objects s p)) ps)
      \<in> set (schedule_groups (staggerDelay (config s)) 0
            (group_plugins (objects s) (registeredPlugins s) []))"
    using schedule_groups_covers[OF ps(1)] by blast
  then show ?thesis
    using assms(1) ne ps(2) by (auto simp: checkAllUpdates_def Let_def)
qed

subsection \<open>The updated side of the summary\<close>

lemma preserves_ret: "preserves f (ret x)"
  by (simp add: preserves_def)

lemma preserves_throw: "preserves f (throw e)"
  by (simp add: preserves_def)

lemma preserves_gets: "preserves f (gets g)"
  by (simp add: preserves_def gets_def)

lemma preserves_bind:
  assumes "preserves f m" and "\<And>x. preserves f (g x)"
  shows "preserves f (bind m g)"
proof -
  have "f (snd (bind m g s)) = f s" for s
  proof (cases "m s")
    case (Pair r s1)
    have 1: "f s1 = f s" using assms(1) Pair unfolding preserves_def by (metis snd_conv)
    show ?thesis
    proof (cases r)
      case (Inl e)
      then show ?thesis using Pair 1 by (simp add: bind_def)
    next
      case (Inr x)
      have "f (snd (g x s1)) = f s1" using assms(2)[of x] unfolding preserves_def by simp
      then show ?thesis using Pair Inr 1 by (simp add: bind_def)
    qed
  qed
  then show ?thesis by (simp add: preserves_def)
qed

lemma preserves_try_catch:
  assumes "preserves f m" and "\<And>e. preserves f (h e)"
  shows "preserves f (try_catch m h)"
proof -
  have "f (snd (try_catch m h s)) = f s" for s
  proof (cases "m s")
    case (Pair r s1)
    have 1: "f s1 = f s" using assms(1) Pair unfolding preserves_def by (metis snd_conv)
    show ?thesis
    proof (cases r)
      case (Inr x)
      then show ?thesis using Pair 1 by (simp add: try_catch_def)
    next
      case (Inl e)
      have "f (snd (h e s1)) = f s1" using assms(2)[of e] unfolding preserves_def by simp
      then show ?thesis using Pair Inl 1 by (simp add: try_catch_def)
    qed
  qed
  then show ?thesis by (simp add: preserves_def)
qed

lemma preserves_if:
  "preserves f a \<Longrightarrow> preserves f b \<Longrightarrow> preserves f (if c then a else b)"
  by simp

lemma preserves_updated_world_only:
  assumes "world_only m"
  shows "preserves updated_side m"
proof -
  have "updated_side (snd (m s)) = updated_side s" for s
    using world_only_frame[OF assms, of s "fst (m s)" "snd (m s)"]
    by (simp add: updated_side_def)
  then show ?thesis by (simp add: preserves_def)
qed

lemma preserves_updated_assign: "preserves updated_side (assign p g)"
  by (simp add: preserves_def assign_def updated_side_def)

lemma preserves_updated_extern: "preserves updated_side (extern c g)"
  by (simp add: preserves_def extern_def updated_side_def split: prod.splits)

lemma preserves_updated_addPluginChecked:
  "preserves updated_side (\<lambda>s. (Inr (), addPluginChecked n s))"
  by (simp add: preserves_def addPluginChecked_def updated_side_def)

lemmas preserves_updated_intros =
  preserves_try_catch preserves_bind preserves_if preserves_ret preserves_throw preserves_gets
  preserves_updated_assign preserves_updated_extern preserves_updated_addPluginChecked
  preserves_updated_world_only[OF world_only_getLatestVersion]
  preserves_updated_world_only[OF world_only_performPluginUpdate]

text \<open>No check of a plugin, whatever its outcome, changes the updated side of the summary.\<close>

lemma checkPluginUpdate_keeps_updated_side:
  "preserves updated_side (checkPluginUpdate env p lv0)"
  unfolding checkPluginUpdate_def
  by (intro preserves_updated_intros)

lemma check_each_keeps_updated_side:
  "preserves updated_side (check_each env ps lv)"
proof (induction ps)
  case Nil
  show ?case
    unfolding check_each.simps by (rule preserves_ret)
next
  case (Cons p ps)
  show ?case
    unfolding check_each.simps
    by (intro preserves_bind checkPluginUpdate_keeps_updated_side Cons.IH)
qed

lemma checkRepositoryUpdates_keeps_updated_side:
  "preserves updated_side (checkRepositoryUpdates env repoKey ps)"
  unfolding checkRepositoryUpdates_def Let_def
  by (intro preserves_updated_intros check_each_keeps_updated_side)

subsection \<open>The version a check works with is never the empty string\<close>

lemma resolve_latest_truthy:
  assumes "resolve_latest env p lv0 s = (Inr (Some lv), s0)"
  shows "lv \<noteq> []"
proof (cases "falsy lv0")
  case True
  then show ?thesis
    using assms getLatestVersion_run[of env "owner (objects s p)" "repo (objects s p)" s]
    by (auto simp: resolve_latest_def)
next
  case False
  then show ?thesis
    using assms by (auto simp: resolve_latest_def)
qed

subsection \<open>Evaluating a run in the example world\<close>

lemmas run_eval =
  checkPluginUpdates_def checkPluginUpdate_def performPluginUpdate_def createBackup_def
  getLatestVersion_def getRelativePath_def relative_path_def release_url_def download_url_def
  try_catch_def bind_def extern_def gets_def ret_def throw_def assign_def Let_def
  example_env_def example_remote_def example_files_def example_manager_def example_join_def
  initial_manager_def default_config_def registerPlugin_def initialize_def
  startPeriodicChecks_def addPluginChecked_def setDiscordNotifier_def

lemmas check_eval = run_eval resolve_latest_def update_pending_def

lemmas resolver_eval =
  getLatestVersion_def release_url_def try_catch_def bind_def extern_def ret_def Let_def
  example_env_def example_remote_def example_files_def example_manager_def
  initial_manager_def default_config_def registerPlugin_def initialize_def
  startPeriodicChecks_def setDiscordNotifier_def

section \<open>The check of one plugin\<close>

text \<open>
  Claim C2. In a check of one plugin where a newer version \<open>lv\<close> is found (passed in by
  the group check, or fetched) and the transaction succeeds, the plugin's \<open>version\<close>
  becomes \<open>lv\<close>, \<open>needsUpdate\<close> is false, \<open>lastUpdated\<close> is the time read after the
  transaction, and the check makes exactly one notifier call
  \<open>onPluginUpdated(name, oldVersion, newVersion, backupPath)\<close> when a notifier is set,
  and none when it is not.
\<close>

theorem successful_update_applied:
  assumes res: "resolve_latest env p lv0 s = (Inr (Some lv), s0)"
    and cmp: "compareVersions (version (objects s p)) (Some lv) < 0"
    and txn: "performPluginUpdate env p lv (update_pending env p lv s0) = (Inr r, s2)"
    and up: "updated r"
  shows "fst (checkPluginUpdate env p lv0 s) = Inr () \<and>
         version (objects (snd (checkPluginUpdate env p lv0 s)) p) = Some lv \<and>
         \<not> needsUpdate (objects (snd (checkPluginUpdate env p lv0 s)) p) \<and>
         lastUpdated (objects (snd (checkPluginUpdate env p lv0 s)) p)
           = Some (new_Date env (world s2)) \<and>
         filter is_notification (calls (snd (checkPluginUpdate env p lv0 s))) =
           filter is_notification (calls s) @
           (if discordNotifier s
            then [OnPluginUpdated (name (objects s p)) (version (objects s p)) lv (backupPath r)]
            else [])"
proof -
  let ?start = "update_pending env p lv s0"
  note res' = res[unfolded resolve_latest_def]
  note txn' = txn[unfolded update_pending_def]
  note lv = resolve_latest_truthy[OF res]
  have f0: "objects s0 = objects s" "discordNotifier s0 = discordNotifier s"
    "filter is_notification (calls s0) = filter is_notification (calls s)"
    using resolve_latest_frame[OF res] by simp_all
  have f2: "objects s2 = objects ?start" "discordNotifier s2 = discordNotifier ?start"
    "filter is_notification (calls s2) = filter is_notification (calls ?start)"
    using world_only_frame[OF world_only_performPluginUpdate txn] by simp_all
  have old: "oldVersion r = version (objects s p)"
    using performPluginUpdate_updated[OF txn up] f0 by (auto simp: update_pending_def)
  have cmp0: "compareVersions (version (objects s0 p)) (Some lv) < 0"
    using cmp f0 by simp
  have nm: "name (objects s2 p) = name (objects s p)"
    using f2 f0 by (simp add: update_pending_def)
  show ?thesis
  proof (cases "discordNotifier s")
    case False
    then have "\<not> discordNotifier s2"
      using f0 f2 by (simp add: update_pending_def)
    from checkPluginUpdate_applied_silent[OF res' lv cmp0 txn' up this]
    show ?thesis
      using False f0 f2 by (simp add: addPluginChecked_def update_pending_def)
  next
    case True
    then have n: "discordNotifier s2"
      using f0 f2 by (simp add: update_pending_def)
    obtain outcome w where call:
      "onPluginUpdated env (name (objects s2 p)) (oldVersion r) lv (backupPath r) (world s2)
         = (outcome, w)"
      by (cases "onPluginUpdated env (name (objects s2 p)) (oldVersion r) lv (backupPath r)
                   (world s2)")
    from checkPluginUpdate_applied_notified[OF res' lv cmp0 txn' up n call]
    show ?thesis
      using True f0 f2 old nm
      by (cases outcome) (simp_all add: addPluginChecked_def update_pending_def)
  qed
qed

theorem successful_update_applied_witness:
  "compareVersions (version (objects (setDiscordNotifier True example_manager) 0))
     (Some ''v2.0.0'') < 0 \<and>
   version (objects (snd (checkPluginUpdate (example_env example_remote False False False) 0 None
     (setDiscordNotifier True example_manager))) 0) = Some ''v2.0.0'' \<and>
   \<not> needsUpdate (objects (snd (checkPluginUpdate (example_env example_remote False False False)
     0 None (setDiscordNotifier True example_manager))) 0) \<and>
   lastUpdated (objects (snd (checkPluginUpdate (example_env example_remote False False False)
     0 None (setDiscordNotifier True example_manager))) 0) = Some 1000 \<and>
   filter is_notification (calls (snd (checkPluginUpdate
     (example_env example_remote False False False) 0 None
     (setDiscordNotifier True example_manager)))) =
     [OnPluginUpdated ''A'' (Some ''v1.0.0'') ''v2.0.0''
        (Some ''/srv/BACKUP-Plugins/A/a.js.backup'')]"
proof -
  let ?E = "example_env example_remote False False False"
  let ?S = "setDiscordNotifier True example_manager"
  let ?Sres = "snd (getLatestVersion ?E ''acme'' ''plugins'' ?S)"
  let ?Stxn = "update_pending ?E 0 ''v2.0.0'' ?Sres"
  let ?R = "\<lparr>updated = True, newVersion = Some ''v2.0.0'', oldVersion = Some ''v1.0.0'',
             backupPath = Some ''/srv/BACKUP-Plugins/A/a.js.backup'', failure = None\<rparr>"
  have res: "resolve_latest ?E 0 None ?S = (Inr (Some ''v2.0.0''), ?Sres)"
    by (simp add: check_eval)
  have cmp: "compareVersions (version (objects ?S 0)) (Some ''v2.0.0'') < 0"
    by (simp add: run_eval compare_eval)
  have txn: "performPluginUpdate ?E 0 ''v2.0.0'' ?Stxn
               = (Inr ?R, snd (performPluginUpdate ?E 0 ''v2.0.0'' ?Stxn))"
    by (simp add: check_eval)
  have up: "updated ?R" by simp
  note inst = successful_update_applied[OF res cmp txn up]
  have d: "new_Date ?E w = 1000" for w by (simp add: example_env_def)
  have n: "discordNotifier ?S" "name (objects ?S 0) = ''A''"
    "version (objects ?S 0) = Some ''v1.0.0''" "calls ?S = []"
    by (simp_all add: check_eval)
  show ?thesis
    using inst cmp n by (simp add: d)
qed

text \<open>
  Claim C3, as the code has it. When the download, the write of the plugin file, the
  read-back or the comparison of the file with the download fails in a transaction
  that a check started, \<open>performPluginUpdate\<close> returns \<open>updated: false\<close> with the message
  of what was thrown, and the check leaves the plugin's \<open>version\<close> as it was and
  \<open>needsUpdate\<close> true, and records the message (or \<open>Update failed\<close> when there is none)
  in the plugin's \<open>error\<close>.
\<close>

theorem failed_transaction_recorded:
  assumes res: "resolve_latest env p lv0 s = (Inr (Some lv), s0)"
    and cmp: "compareVersions (version (objects s p)) (Some lv) < 0"
    and fail: "transaction_failure env p lv (update_pending env p lv s0) = Some e"
  shows "fst (performPluginUpdate env p lv (update_pending env p lv s0)) =
           Inr \<lparr>updated = False, newVersion = None, oldVersion = None, backupPath = None,
                 failure = message e\<rparr> \<and>
         fst (checkPluginUpdate env p lv0 s) = Inr () \<and>
         version (objects (snd (checkPluginUpdate env p lv0 s)) p) = version (objects s p) \<and>
         needsUpdate (objects (snd (checkPluginUpdate env p lv0 s)) p) \<and>
         error (objects (snd (checkPluginUpdate env p lv0 s)) p) =
           (if falsy (message e) then Some ''Update failed'' else message e)"
proof -
  let ?r = "\<lparr>updated = False, newVersion = None, oldVersion = None, backupPath = None,
             failure = message e\<rparr>"
  let ?start = "update_pending env p lv s0"
  note lv = resolve_latest_truthy[OF res]
  have out: "fst (performPluginUpdate env p lv ?start) = Inr ?r"
    using performPluginUpdate_outcome[of env p lv ?start] fail by simp
  then obtain s2 where txn: "performPluginUpdate env p lv ?start = (Inr ?r, s2)"
    by (cases "performPluginUpdate env p lv ?start") simp
  have f0: "objects s0 = objects s"
    using resolve_latest_frame[OF res] by simp
  have f2: "objects s2 = objects ?start"
    using world_only_frame[OF world_only_performPluginUpdate txn] by simp
  have cmp0: "compareVersions (version (objects s0 p)) (Some lv) < 0"
    using cmp f0 by simp
  have "checkPluginUpdate env p lv0 s =
          (Inr (), addPluginChecked (name (objects s2 p))
             (s2\<lparr>objects := (objects s2)(p := (objects s2 p)
                \<lparr>error := (if falsy (failure ?r) then Some ''Update failed''
                            else failure ?r)\<rparr>)\<rparr>))"
    by (rule checkPluginUpdate_failed[OF res[unfolded resolve_latest_def] lv cmp0
          txn[unfolded update_pending_def]]) simp
  then show ?thesis
    using out f0 f2 by (simp add: addPluginChecked_def update_pending_def)
qed

theorem failed_transaction_recorded_witness:
  "transaction_failure (example_env example_remote False True False) 0 ''v2.0.0''
     (update_pending (example_env example_remote False True False) 0 ''v2.0.0''
        (snd (getLatestVersion (example_env example_remote False True False)
                ''acme'' ''plugins'' example_manager)))
     = Some (Error (Some ''File verification failed - update was not written correctly'') None) \<and>
   version (objects (snd (checkPluginUpdate (example_env example_remote False True False)
      0 None example_manager)) 0) = Some ''v1.0.0'' \<and>
   needsUpdate (objects (snd (checkPluginUpdate (example_env example_remote False True False)
      0 None example_manager)) 0) \<and>
   error (objects (snd (checkPluginUpdate (example_env example_remote False True False)
      0 None example_manager)) 0)
     = Some ''File verification failed - update was not written correctly''"
proof -
  let ?E = "example_env example_remote False True False"
  let ?S = "example_manager"
  let ?Sres = "snd (getLatestVersion ?E ''acme'' ''plugins'' ?S)"
  let ?e = "Error (Some ''File verification failed - update was not written correctly'') None"
  have res: "resolve_latest ?E 0 None ?S = (Inr (Some ''v2.0.0''), ?Sres)"
    by (simp add: check_eval)
  have cmp: "compareVersions (version (objects ?S 0)) (Some ''v2.0.0'') < 0"
    by (simp add: run_eval compare_eval)
  have fail: "transaction_failure ?E 0 ''v2.0.0'' (update_pending ?E 0 ''v2.0.0'' ?Sres) = Some ?e"
    by (simp add: check_eval transaction_failure_def)
  have v: "version (objects ?S 0) = Some ''v1.0.0''"
    by (simp add: check_eval)
  show ?thesis
    using failed_transaction_recorded[OF res cmp fail] fail by (simp add: v)
qed

text \<open>
  Claim C3 as stated fails for the backup step. In the example world where \<open>mkdirSync\<close>
  throws, the backup of the transaction fails (\<open>createBackup\<close> returns \<open>null\<close>), and yet
  \<open>performPluginUpdate\<close> returns \<open>updated: true\<close> and the check sets the plugin's version
  to the new one and clears \<open>needsUpdate\<close>.
\<close>

theorem failed_backup_counterexample:
  "backup_fails (example_env example_remote True False False) 0 ''v2.0.0''
     (update_pending (example_env example_remote True False False) 0 ''v2.0.0''
        (snd (getLatestVersion (example_env example_remote True False False)
                ''acme'' ''plugins'' example_manager))) \<and>
   fst (performPluginUpdate (example_env example_remote True False False) 0 ''v2.0.0''
     (update_pending (example_env example_remote True False False) 0 ''v2.0.0''
        (snd (getLatestVersion (example_env example_remote True False False)
                ''acme'' ''plugins'' example_manager))))
     = Inr \<lparr>updated = True, newVersion = Some ''v2.0.0'', oldVersion = Some ''v1.0.0'',
             backupPath = None, failure = None\<rparr> \<and>
   version (objects (snd (checkPluginUpdate (example_env example_remote True False False)
      0 None example_manager)) 0) = Some ''v2.0.0'' \<and>
   needsUpdate (objects (snd (checkPluginUpdate (example_env example_remote True False False)
      0 None example_manager)) 0) = False"
  by (simp add: check_eval backup_fails_def compare_eval)

text \<open>
  Claim C6. \<open>getLatestVersion\<close> never throws. It returns a tag exactly when the request
  succeeds with an object whose \<open>tag_name\<close> is a non-empty string, and \<open>null\<close> in every
  other case: when the request fails, whatever was thrown (a 404 or anything else), and
  when the response carries no body, a body that was not parsed to an object (a text),
  an object without \<open>tag_name\<close>, or an empty \<open>tag_name\<close>. In a standalone check of one
  plugin where it returns \<open>null\<close>, the check ends there: the plugin's \<open>error\<close> is
  \<open>Could not determine latest version\<close>, \<open>lastChecked\<close> is the time of the check,
  \<open>needsUpdate\<close> and \<open>version\<close> are as before, and the only external call made is the
  request for the latest release (no download, no file is touched, no notification).
\<close>

theorem absent_version_recorded:
  "never_throws (getLatestVersion env owner' repo') \<and>
   (fst (axios_get env (release_url owner' repo') (world t)) = Inl e \<longrightarrow>
      fst (getLatestVersion env owner' repo' t) = Inr None) \<and>
   (fst (getLatestVersion env owner' repo' t) = Inr (Some v) \<longleftrightarrow>
      v \<noteq> [] \<and> fst (axios_get env (release_url owner' repo') (world t)) = Inr (Obj (Some v))) \<and>
   (fst (getLatestVersion env owner' repo' t) = Inr None \<longleftrightarrow>
      \<not> (\<exists>tag. tag \<noteq> [] \<and>
           fst (axios_get env (release_url owner' repo') (world t)) = Inr (Obj (Some tag)))) \<and>
   (fst (axios_get env (release_url owner' repo') (world t))
        \<in> {Inr Null, Inr (Str body), Inr (Obj None), Inr (Obj (Some []))} \<longrightarrow>
      fst (getLatestVersion env owner' repo' t) = Inr None) \<and>
   (getLatestVersion env (owner (objects s p)) (repo (objects s p)) s = (Inr None, s0) \<longrightarrow>
      checkPluginUpdate env p None s =
        (Inr (), s0\<lparr>objects := (objects s)(p := (objects s p)
           \<lparr>error := Some ''Could not determine latest version'',
            lastChecked := Some (new_Date env (world s0))\<rparr>)\<rparr>) \<and>
      needsUpdate (objects (snd (checkPluginUpdate env p None s)) p)
        = needsUpdate (objects s p) \<and>
      version (objects (snd (checkPluginUpdate env p None s)) p) = version (objects s p) \<and>
      world (snd (checkPluginUpdate env p None s)) = world s0 \<and>
      calls (snd (checkPluginUpdate env p None s)) =
        calls s @ [HttpGet (release_url (owner (objects s p)) (repo (objects s p)))])"
proof (intro conjI impI)
  show "never_throws (getLatestVersion env owner' repo')"
    by (rule never_throws_getLatestVersion)
next
  assume "fst (axios_get env (release_url owner' repo') (world t)) = Inl e"
  then show "fst (getLatestVersion env owner' repo' t) = Inr None"
    by (rule getLatestVersion_failed)
next
  show "fst (getLatestVersion env owner' repo' t) = Inr (Some v) \<longleftrightarrow>
      v \<noteq> [] \<and> fst (axios_get env (release_url owner' repo') (world t)) = Inr (Obj (Some v))"
    unfolding getLatestVersion_result
    by (auto split: sum.splits jsvalue.splits option.splits)
next
  show "fst (getLatestVersion env owner' repo' t) = Inr None \<longleftrightarrow>
      \<not> (\<exists>tag. tag \<noteq> [] \<and>
           fst (axios_get env (release_url owner' repo') (world t)) = Inr (Obj (Some tag)))"
    unfolding getLatestVersion_result
    by (auto split: sum.splits jsvalue.splits option.splits)
next
  assume "fst (axios_get env (release_url owner' repo') (world t))
        \<in> {Inr Null, Inr (Str body), Inr (Obj None), Inr (Obj (Some []))}"
  then show "fst (getLatestVersion env owner' repo' t) = Inr None"
    unfolding getLatestVersion_result by auto
next
  assume a: "getLatestVersion env (owner (objects s p)) (repo (objects s p)) s = (Inr None, s0)"
  have o: "objects s0 = objects s"
    using world_only_frame[OF world_only_getLatestVersion a] by simp
  have c: "calls s0 = calls s @ [HttpGet (release_url (owner (objects s p)) (repo (objects s p)))]"
    using getLatestVersion_run[of env "owner (objects s p)" "repo (objects s p)" s] a by auto
  have r: "checkPluginUpdate env p None s =
        (Inr (), s0\<lparr>objects := (objects s0)(p := (objects s0 p)
           \<lparr>error := Some ''Could not determine latest version'',
            lastChecked := Some (new_Date env (world s0))\<rparr>)\<rparr>)"
    by (rule checkPluginUpdate_absent[where lv=None]) (simp_all add: a)
  show "checkPluginUpdate env p None s =
        (Inr (), s0\<lparr>objects := (objects s)(p := (objects s p)
           \<lparr>error := Some ''Could not determine latest version'',
            lastChecked := Some (new_Date env (world s0))\<rparr>)\<rparr>)"
    using r o by simp
  show "needsUpdate (objects (snd (checkPluginUpdate env p None s)) p) = needsUpdate (objects s p)"
    using r o by simp
  show "version (objects (snd (checkPluginUpdate env p None s)) p) = version (objects s p)"
    using r o by simp
  show "world (snd (checkPluginUpdate env p None s)) = world s0"
    using r by simp
  show "calls (snd (checkPluginUpdate env p None s)) =
        calls s @ [HttpGet (release_url (owner (objects s p)) (repo (objects s p)))]"
    using r c by simp
qed

text \<open>
  The theorem at three remotes: one without the release (the request fails with a
  404), one that answers the request with a page of text, and one with the release
  \<open>v2.0.0\<close>.
\<close>

theorem absent_version_recorded_witness:
  "fst (axios_get (example_env [] False False False) (release_url ''acme'' ''plugins'')
         (world example_manager))
     = Inl (Error (Some ''Request failed with status code 404'') (Some 404)) \<and>
   fst (getLatestVersion (example_env [] False False False) ''acme'' ''plugins'' example_manager)
     = Inr None \<and>
   error (objects (snd (checkPluginUpdate (example_env [] False False False) 0 None
      example_manager)) 0) = Some ''Could not determine latest version'' \<and>
   lastChecked (objects (snd (checkPluginUpdate (example_env [] False False False) 0 None
      example_manager)) 0) = Some 1000 \<and>
   needsUpdate (objects (snd (checkPluginUpdate (example_env [] False False False) 0 None
      example_manager)) 0) = False \<and>
   calls (snd (checkPluginUpdate (example_env [] False False False) 0 None example_manager))
     = [HttpGet ''https://api.github.com/repos/acme/plugins/releases/latest''] \<and>
   fst (axios_get (example_env [(release_url ''acme'' ''plugins'', Str ''<html>'')]
          False False False) (release_url ''acme'' ''plugins'') (world example_manager))
     = Inr (Str ''<html>'') \<and>
   fst (getLatestVersion (example_env [(release_url ''acme'' ''plugins'', Str ''<html>'')]
          False False False) ''acme'' ''plugins'' example_manager)
     = Inr None \<and>
   error (objects (snd (checkPluginUpdate
      (example_env [(release_url ''acme'' ''plugins'', Str ''<html>'')] False False False)
      0 None example_manager)) 0) = Some ''Could not determine latest version'' \<and>
   ''v2.0.0'' \<noteq> [] \<and>
   fst (axios_get (example_env example_remote False False False)
          (release_url ''acme'' ''plugins'') (world example_manager))
     = Inr (Obj (Some ''v2.0.0'')) \<and>
   fst (getLatestVersion (example_env example_remote False False False) ''acme'' ''plugins''
          example_manager)
     = Inr (Some ''v2.0.0'')"
proof -
  let ?E = "example_env [] False False False"
  let ?T = "example_env [(release_url ''acme'' ''plugins'', Str ''<html>'')] False False False"
  let ?R = "example_env example_remote False False False"
  let ?S = "example_manager"
  let ?Sres = "snd (getLatestVersion ?E ''acme'' ''plugins'' ?S)"
  let ?Stxt = "snd (getLatestVersion ?T ''acme'' ''plugins'' ?S)"
  have fetch: "fst (axios_get ?E (release_url ''acme'' ''plugins'') (world ?S))
     = Inl (Error (Some ''Request failed with status code 404'') (Some 404))"
    by (simp add: example_env_def)
  have page: "fst (axios_get ?T (release_url ''acme'' ''plugins'') (world ?S))
     = Inr (Str ''<html>'')"
    by (simp add: example_env_def)
  have release: "fst (axios_get ?R (release_url ''acme'' ''plugins'') (world ?S))
     = Inr (Obj (Some ''v2.0.0''))"
    by (simp add: example_env_def example_remote_def release_url_def)
  have res: "getLatestVersion ?E (owner (objects ?S 0)) (repo (objects ?S 0)) ?S
               = (Inr None, ?Sres)"
    by (simp add: run_eval)
  have noparse: "getLatestVersion ?T (owner (objects ?S 0)) (repo (objects ?S 0)) ?S
               = (Inr None, ?Stxt)"
    by (simp add: run_eval)
  have facts: "owner (objects ?S 0) = ''acme''" "repo (objects ?S 0) = ''plugins''"
    "needsUpdate (objects ?S 0) = False" "calls ?S = []"
    by (simp_all add: run_eval)
  have d: "new_Date ?E w = 1000" for w by (simp add: example_env_def)
  note missing = absent_version_recorded[of ?E "''acme''" "''plugins''" ?S
        "Error (Some ''Request failed with status code 404'') (Some 404)" "''v2.0.0''"
        "''<html>''" ?S 0 ?Sres]
  note unparsed = absent_version_recorded[of ?T "''acme''" "''plugins''" ?S
        "Error (Some ''Request failed with status code 404'') (Some 404)" "''v2.0.0''"
        "''<html>''" ?S 0 ?Stxt]
  note found = absent_version_recorded[of ?R "''acme''" "''plugins''" ?S
        "Error (Some ''Request failed with status code 404'') (Some 404)" "''v2.0.0''"
        "''<html>''" ?S 0 ?Sres]
  have m1: "fst (getLatestVersion ?E ''acme'' ''plugins'' ?S) = Inr None"
    using missing[THEN conjunct2, THEN conjunct1, rule_format, OF fetch] .
  have m2: "checkPluginUpdate ?E 0 None ?S =
        (Inr (), ?Sres\<lparr>objects := (objects ?S)(0 := (objects ?S 0)
           \<lparr>error := Some ''Could not determine latest version'',
            lastChecked := Some (new_Date ?E (world ?Sres))\<rparr>)\<rparr>)"
       "calls (snd (checkPluginUpdate ?E 0 None ?S)) =
          calls ?S @ [HttpGet (release_url (owner (objects ?S 0)) (repo (objects ?S 0)))]"
    using missing[THEN conjunct2, THEN conjunct2, THEN conjunct2, THEN conjunct2,
        THEN conjunct2, rule_format, OF res] by blast+
  have t1: "fst (getLatestVersion ?T ''acme'' ''plugins'' ?S) = Inr None"
    using unparsed[THEN conjunct2, THEN conjunct2, THEN conjunct2, THEN conjunct2,
        THEN conjunct1, rule_format] page by simp
  have t2: "checkPluginUpdate ?T 0 None ?S =
        (Inr (), ?Stxt\<lparr>objects := (objects ?S)(0 := (objects ?S 0)
           \<lparr>error := Some ''Could not determine latest version'',
            lastChecked := Some (new_Date ?T (world ?Stxt))\<rparr>)\<rparr>)"
    using unparsed[THEN conjunct2, THEN conjunct2, THEN conjunct2, THEN conjunct2,
        THEN conjunct2, rule_format, OF noparse] by blast
  have f1: "fst (getLatestVersion ?R ''acme'' ''plugins'' ?S) = Inr (Some ''v2.0.0'')"
    using found[THEN conjunct2, THEN conjunct2, THEN conjunct1] release by simp
  have e1: "error (objects (snd (checkPluginUpdate ?E 0 None ?S)) 0)
              = Some ''Could not determine latest version''"
       "lastChecked (objects (snd (checkPluginUpdate ?E 0 None ?S)) 0) = Some 1000"
       "needsUpdate (objects (snd (checkPluginUpdate ?E 0 None ?S)) 0) = False"
    unfolding m2(1) by (simp_all add: facts d)
  have e2: "calls (snd (checkPluginUpdate ?E 0 None ?S))
     = [HttpGet ''https://api.github.com/repos/acme/plugins/releases/latest'']"
    unfolding m2(2) by (simp add: facts release_url_def)
  have e3: "error (objects (snd (checkPluginUpdate ?T 0 None ?S)) 0)
              = Some ''Could not determine latest version''"
    unfolding t2 by simp
  show ?thesis
    using fetch m1 e1 e2 page t1 e3 release f1 by simp
qed

section \<open>The check of a repository group and the cycle\<close>

text \<open>
  Claim C10. When the check of a repository group gets no latest version, it returns
  at once: the state it leaves is the one the lookup left, so every plugin object, the
  registry and the cycle summary are as they were (no \<open>lastChecked\<close>, no \<open>error\<close>, no
  \<open>latestVersion\<close>, nothing added to the checked list). The standalone check of one
  plugin, in the same situation, sets the plugin's \<open>error\<close> and \<open>lastChecked\<close>.
\<close>

theorem unresolved_group_untouched:
  "(getLatestVersion env (template (at_index (split_on (CHR ''/'') repoKey) 0))
      (template (at_index (split_on (CHR ''/'') repoKey) 1)) s = (Inr None, s0) \<longrightarrow>
      checkRepositoryUpdates env repoKey plugins s = (Inr (), s0) \<and>
      objects s0 = objects s \<and>
      updateSummary s0 = updateSummary s \<and>
      registeredPlugins s0 = registeredPlugins s) \<and>
   (getLatestVersion env (owner (objects t p)) (repo (objects t p)) t = (Inr None, t0) \<longrightarrow>
      error (objects (snd (checkPluginUpdate env p None t)) p)
        = Some ''Could not determine latest version'' \<and>
      lastChecked (objects (snd (checkPluginUpdate env p None t)) p)
        = Some (new_Date env (world t0)))"
proof (intro conjI impI)
  assume a: "getLatestVersion env (template (at_index (split_on (CHR ''/'') repoKey) 0))
      (template (at_index (split_on (CHR ''/'') repoKey) 1)) s = (Inr None, s0)"
  show "checkRepositoryUpdates env repoKey plugins s = (Inr (), s0)"
    by (rule checkRepositoryUpdates_absent[OF a]) simp
  show "objects s0 = objects s" "updateSummary s0 = updateSummary s"
    "registeredPlugins s0 = registeredPlugins s"
    using world_only_frame[OF world_only_getLatestVersion a] by simp_all
next
  assume b: "getLatestVersion env (owner (objects t p)) (repo (objects t p)) t = (Inr None, t0)"
  have r: "checkPluginUpdate env p None t =
        (Inr (), t0\<lparr>objects := (objects t0)(p := (objects t0 p)
           \<lparr>error := Some ''Could not determine latest version'',
            lastChecked := Some (new_Date env (world t0))\<rparr>)\<rparr>)"
    by (rule checkPluginUpdate_absent[where lv=None]) (simp_all add: b)
  show "error (objects (snd (checkPluginUpdate env p None t)) p)
        = Some ''Could not determine latest version''"
    using r by simp
  show "lastChecked (objects (snd (checkPluginUpdate env p None t)) p)
        = Some (new_Date env (world t0))"
    using r by simp
qed

theorem unresolved_group_untouched_witness:
  "fst (getLatestVersion (example_env [] False False False) ''acme'' ''plugins'' example_manager)
     = Inr None \<and>
   fst (checkRepositoryUpdates (example_env [] False False False) ''acme/plugins'' [0]
          example_manager) = Inr () \<and>
   objects (snd (checkRepositoryUpdates (example_env [] False False False) ''acme/plugins'' [0]
          example_manager)) = objects example_manager \<and>
   updateSummary (snd (checkRepositoryUpdates (example_env [] False False False)
          ''acme/plugins'' [0] example_manager)) = updateSummary example_manager \<and>
   error (objects (snd (checkPluginUpdate (example_env [] False False False) 0 None
          example_manager)) 0) = Some ''Could not determine latest version'' \<and>
   lastChecked (objects (snd (checkPluginUpdate (example_env [] False False False) 0 None
          example_manager)) 0) = Some 1000"
proof -
  let ?E = "example_env [] False False False"
  let ?S = "example_manager"
  let ?Sres = "snd (getLatestVersion ?E ''acme'' ''plugins'' ?S)"
  have group: "getLatestVersion ?E (template (at_index (split_on (CHR ''/'') ''acme/plugins'') 0))
      (template (at_index (split_on (CHR ''/'') ''acme/plugins'') 1)) ?S = (Inr None, ?Sres)"
    by (simp add: resolver_eval template_def at_index_def)
  have single: "getLatestVersion ?E (owner (objects ?S 0)) (repo (objects ?S 0)) ?S
      = (Inr None, ?Sres)"
    by (simp add: resolver_eval)
  have res: "fst (getLatestVersion ?E ''acme'' ''plugins'' ?S) = Inr None"
    by (simp add: resolver_eval)
  have d: "new_Date ?E w = 1000" for w by (simp add: example_env_def)
  note inst = unresolved_group_untouched[of ?E "''acme/plugins''" ?S ?Sres "[0]" ?S 0 ?Sres]
  note grouped = inst[THEN conjunct1, rule_format, OF group]
  note standalone = inst[THEN conjunct2, rule_format, OF single]
  show ?thesis
    using grouped standalone res by (simp add: d)
qed

text \<open>
  Claim C1, evaluated on the code. A cycle schedules, for every registered plugin
  whatever its \<open>disabled\<close> flag, a check of its repository group with the plugin in it.
  In the example the plugin \<open>A\<close> is disabled, and stays in the registry; the cycle
  schedules the check of its group with \<open>A\<close> in it; that group check, and the manual
  check of \<open>A\<close> by name, both look up the latest release, download it, write the plugin
  file and set the version of \<open>A\<close> to \<open>v2.0.0\<close>: no method reads the \<open>disabled\<close> flag.
\<close>

theorem disabled_plugin_still_checked:
  "(enabled (config s) \<and> (n, p) \<in> set (registeredPlugins s) \<longrightarrow>
      (\<exists>delay ps.
         (delay, RepositoryCheck (owner (objects s p) @ ''/'' @ repo (objects s p)) ps)
           \<in> set (timeouts (checkAllUpdates env s)) \<and> p \<in> set ps)) \<and>
   disabled (objects (disablePluginUpdates ''A'' example_manager) 0) = Some True \<and>
   getAllPlugins (disablePluginUpdates ''A'' example_manager) = [''A''] \<and>
   timeouts (checkAllUpdates (example_env example_remote False False False)
      (disablePluginUpdates ''A'' example_manager))
     = [(15000, InitialUpdateCheck), (0, RepositoryCheck ''acme/plugins'' [0])] \<and>
   version (objects (snd (checkRepositoryUpdates (example_env example_remote False False False)
      ''acme/plugins'' [0] (disablePluginUpdates ''A'' example_manager))) 0)
     = Some ''v2.0.0'' \<and>
   version (objects (snd (checkPluginUpdates (example_env example_remote False False False)
      ''A'' (disablePluginUpdates ''A'' example_manager))) 0) = Some ''v2.0.0'' \<and>
   calls (snd (checkPluginUpdates (example_env example_remote False False False)
      ''A'' (disablePluginUpdates ''A'' example_manager)))
     = [HttpGet ''https://api.github.com/repos/acme/plugins/releases/latest'',
        HttpGet ''https://raw.githubusercontent.com/acme/plugins/v2.0.0/plugins/a.js'',
        ExistsSync ''/srv/BACKUP-Plugins/A'',
        MkdirSync ''/srv/BACKUP-Plugins/A'',
        ReadFileSync ''/srv/plugins/a.js'',
        WriteFileSync ''/srv/BACKUP-Plugins/A/a.js.backup'' (Str ''old code''),
        WriteFileSync ''/srv/plugins/a.js'' (Str ''new code''),
        ReadFileSync ''/srv/plugins/a.js'']"
proof -
  have general: "enabled (config s) \<and> (n, p) \<in> set (registeredPlugins s) \<longrightarrow>
      (\<exists>delay ps.
         (delay, RepositoryCheck (owner (objects s p) @ ''/'' @ repo (objects s p)) ps)
           \<in> set (timeouts (checkAllUpdates env s)) \<and> p \<in> set ps)"
    using checkAllUpdates_schedules_every_plugin[of s n p env] by blast
  have example: "disabled (objects (disablePluginUpdates ''A'' example_manager) 0) = Some True \<and>
   getAllPlugins (disablePluginUpdates ''A'' example_manager) = [''A''] \<and>
   timeouts (checkAllUpdates (example_env example_remote False False False)
      (disablePluginUpdates ''A'' example_manager))
     = [(15000, InitialUpdateCheck), (0, RepositoryCheck ''acme/plugins'' [0])] \<and>
   version (objects (snd (checkRepositoryUpdates (example_env example_remote False False False)
      ''acme/plugins'' [0] (disablePluginUpdates ''A'' example_manager))) 0)
     = Some ''v2.0.0'' \<and>
   version (objects (snd (checkPluginUpdates (example_env example_remote False False False)
      ''A'' (disablePluginUpdates ''A'' example_manager))) 0) = Some ''v2.0.0'' \<and>
   calls (snd (checkPluginUpdates (example_env example_remote False False False)
      ''A'' (disablePluginUpdates ''A'' example_manager)))
     = [HttpGet ''https://api.github.com/repos/acme/plugins/releases/latest'',
        HttpGet ''https://raw.githubusercontent.com/acme/plugins/v2.0.0/plugins/a.js'',
        ExistsSync ''/srv/BACKUP-Plugins/A'',
        MkdirSync ''/srv/BACKUP-Plugins/A'',
        ReadFileSync ''/srv/plugins/a.js'',
        WriteFileSync ''/srv/BACKUP-Plugins/A/a.js.backup'' (Str ''old code''),
        WriteFileSync ''/srv/plugins/a.js'' (Str ''new code''),
        ReadFileSync ''/srv/plugins/a.js'']"
    by (simp add: run_eval compare_eval disablePluginUpdates_def checkAllUpdates_def
        checkRepositoryUpdates_def template_def getAllPlugins_def)
  show ?thesis
    using general example by blast
qed

theorem disabled_plugin_still_checked_witness:
  "enabled (config (disablePluginUpdates ''A'' example_manager)) \<and>
   (''A'', 0) \<in> set (registeredPlugins (disablePluginUpdates ''A'' example_manager)) \<and>
   disabled (objects (disablePluginUpdates ''A'' example_manager) 0) = Some True \<and>
   (\<exists>delay ps. (delay, RepositoryCheck ''acme/plugins'' ps)
      \<in> set (timeouts (checkAllUpdates (example_env example_remote False False False)
            (disablePluginUpdates ''A'' example_manager))) \<and> 0 \<in> set ps)"
proof -
  let ?S = "disablePluginUpdates ''A'' example_manager"
  have facts: "enabled (config ?S)" "(''A'', 0) \<in> set (registeredPlugins ?S)"
    "owner (objects ?S 0) = ''acme''" "repo (objects ?S 0) = ''plugins''"
    by (simp_all add: disablePluginUpdates_def example_manager_def registerPlugin_def
        initial_manager_def default_config_def initialize_def startPeriodicChecks_def Let_def)
  note inst = disabled_plugin_still_checked[of ?S "''A''" 0
      "example_env example_remote False False False"]
  note scheduled = inst[THEN conjunct1, rule_format, OF conjI[OF facts(1) facts(2)]]
  note flag = inst[THEN conjunct2, THEN conjunct1]
  show ?thesis
    using scheduled flag facts by simp
qed

text \<open>
  Claim C7, evaluated on the code. No check of a plugin and no check of a repository
  group, whatever its outcome, changes the updated list or the updated counter of the
  summary: \<open>checkPluginUpdate\<close> never calls \<open>addPluginUpdated\<close>. In the example, after a
  check whose transaction succeeds (the version is now \<open>v2.0.0\<close>), the summary lists the
  plugin as checked, but its updated list is empty and its updated counter is \<open>0\<close>.
\<close>

theorem updated_plugin_missing_from_summary:
  "preserves updated_side (checkPluginUpdate env p lv0) \<and>
   preserves updated_side (checkRepositoryUpdates env repoKey ps) \<and>
   version (objects (snd (checkPluginUpdates (example_env example_remote False False False)
      ''A'' example_manager)) 0) = Some ''v2.0.0'' \<and>
   pluginsChecked (updateSummary (snd (checkPluginUpdates
      (example_env example_remote False False False) ''A'' example_manager))) = [''A''] \<and>
   pluginsUpdated (updateSummary (snd (checkPluginUpdates
      (example_env example_remote False False False) ''A'' example_manager))) = [] \<and>
   totalUpdated (updateSummary (snd (checkPluginUpdates
      (example_env example_remote False False False) ''A'' example_manager))) = 0"
proof -
  have "version (objects (snd (checkPluginUpdates (example_env example_remote False False False)
      ''A'' example_manager)) 0) = Some ''v2.0.0'' \<and>
   pluginsChecked (updateSummary (snd (checkPluginUpdates
      (example_env example_remote False False False) ''A'' example_manager))) = [''A''] \<and>
   pluginsUpdated (updateSummary (snd (checkPluginUpdates
      (example_env example_remote False False False) ''A'' example_manager))) = [] \<and>
   totalUpdated (updateSummary (snd (checkPluginUpdates
      (example_env example_remote False False False) ''A'' example_manager))) = 0"
    by (simp add: run_eval compare_eval)
  then show ?thesis
    using checkPluginUpdate_keeps_updated_side[of env p lv0]
      checkRepositoryUpdates_keeps_updated_side[of env repoKey ps]
    by blast
qed

section \<open>The cycle summary\<close>

lemma addPluginChecked_idem:
  "addPluginChecked n (addPluginChecked n s) = addPluginChecked n s"
  by (simp add: addPluginChecked_def)

lemma addPluginUpdated_idem:
  "addPluginUpdated n v (addPluginUpdated n v' s) = addPluginUpdated n v' s"
  by (simp add: addPluginUpdated_def)

lemma count_list_append_single:
  "count_list (xs @ [x]) y = count_list xs y + (if x = y then 1 else 0)"
  by (induction xs) simp_all

lemma count_list_distinct: "distinct xs \<Longrightarrow> x \<in> set xs \<Longrightarrow> count_list xs x = 1"
  by (induction xs) auto

lemma addPluginChecked_consistent:
  assumes "summary_consistent (updateSummary s)"
  shows "summary_consistent (updateSummary (addPluginChecked n s)) \<and>
         count_list (pluginsChecked (updateSummary (addPluginChecked n s))) n = 1"
  using assms
  by (auto simp: summary_consistent_def addPluginChecked_def count_list_append_single
      count_list_distinct)

lemma addPluginUpdated_consistent:
  assumes "summary_consistent (updateSummary s)"
  shows "summary_consistent (updateSummary (addPluginUpdated n v s)) \<and>
         count_list (pluginsUpdated (updateSummary (addPluginUpdated n v s))) n = 1"
  using assms
  by (auto simp: summary_consistent_def addPluginUpdated_def count_list_append_single
      count_list_distinct)

text \<open>
  Claim C8, as the code has it. \<open>addPluginChecked\<close> and \<open>addPluginUpdated\<close> are
  idempotent: a second call with the same name changes nothing, and in a summary that
  counts what it lists and lists no name twice, the name then occurs exactly once and
  the counters still match the lists. \<open>printUpdateSummary\<close> resets every counter and
  list when at least one plugin was checked; when the checked counter is \<open>0\<close> it
  returns at its first line and leaves the summary as it is.
\<close>

theorem summary_marks_idempotent:
  "addPluginChecked n (addPluginChecked n s) = addPluginChecked n s \<and>
   addPluginUpdated n v (addPluginUpdated n v' s) = addPluginUpdated n v' s \<and>
   (summary_consistent (updateSummary s) \<longrightarrow>
      summary_consistent (updateSummary (addPluginChecked n (addPluginChecked n s))) \<and>
      count_list (pluginsChecked (updateSummary (addPluginChecked n (addPluginChecked n s)))) n = 1 \<and>
      summary_consistent (updateSummary (addPluginUpdated n v (addPluginUpdated n v' s))) \<and>
      count_list (pluginsUpdated (updateSummary (addPluginUpdated n v (addPluginUpdated n v' s)))) n = 1) \<and>
   (totalChecked (updateSummary s) \<noteq> 0 \<longrightarrow>
      updateSummary (printUpdateSummary s) =
        \<lparr>totalChecked = 0, totalUpdated = 0, pluginsChecked = [], pluginsUpdated = [],
         lastCheck = None\<rparr>) \<and>
   (totalChecked (updateSummary s) = 0 \<longrightarrow> printUpdateSummary s = s)"
  using addPluginChecked_consistent[of s n] addPluginUpdated_consistent[of s n v']
  by (simp add: addPluginChecked_idem addPluginUpdated_idem printUpdateSummary_def
      resetUpdateSummary_def)

theorem summary_marks_idempotent_witness:
  "summary_consistent (updateSummary (initial_manager ())) \<and>
   pluginsChecked (updateSummary
     (addPluginChecked ''A'' (addPluginChecked ''A'' (initial_manager ())))) = [''A''] \<and>
   totalChecked (updateSummary
     (addPluginChecked ''A'' (addPluginChecked ''A'' (initial_manager ())))) = 1 \<and>
   count_list (pluginsChecked (updateSummary
     (addPluginChecked ''A'' (addPluginChecked ''A'' (initial_manager ()))))) ''A'' = 1 \<and>
   count_list (pluginsUpdated (updateSummary
     (addPluginUpdated ''A'' ''v2'' (addPluginUpdated ''A'' ''v2'' (initial_manager ()))))) ''A'' = 1 \<and>
   updateSummary (printUpdateSummary (addPluginUpdated ''A'' ''v2''
     (addPluginChecked ''A'' (initial_manager ())))) =
     \<lparr>totalChecked = 0, totalUpdated = 0, pluginsChecked = [], pluginsUpdated = [],
      lastCheck = None\<rparr> \<and>
   printUpdateSummary (initial_manager ()) = initial_manager ()"
proof -
  have c: "summary_consistent (updateSummary (initial_manager ()))"
    by (simp add: summary_consistent_def initial_manager_def)
  have t: "totalChecked (updateSummary (addPluginUpdated ''A'' ''v2''
     (addPluginChecked ''A'' (initial_manager ())))) \<noteq> 0"
    by (simp add: addPluginUpdated_def addPluginChecked_def initial_manager_def)
  have z: "totalChecked (updateSummary (initial_manager ())) = 0"
    by (simp add: initial_manager_def)
  note a = summary_marks_idempotent[of "''A''" "initial_manager ()" "''v2''" "''v2''"]
  note b = summary_marks_idempotent[of "''A''"
     "addPluginUpdated ''A'' ''v2'' (addPluginChecked ''A'' (initial_manager ()))" "''v2''" "''v2''"]
  have lists: "pluginsChecked (updateSummary
     (addPluginChecked ''A'' (addPluginChecked ''A'' (initial_manager ())))) = [''A'']"
    "totalChecked (updateSummary
     (addPluginChecked ''A'' (addPluginChecked ''A'' (initial_manager ())))) = 1"
    by (simp_all add: addPluginChecked_def initial_manager_def)
  note marked = a[THEN conjunct2, THEN conjunct2, THEN conjunct1, rule_format, OF c]
  note reported =
    b[THEN conjunct2, THEN conjunct2, THEN conjunct2, THEN conjunct1, rule_format, OF t]
  note skipped =
    a[THEN conjunct2, THEN conjunct2, THEN conjunct2, THEN conjunct2, rule_format, OF z]
  show ?thesis
    using marked reported skipped c lists by simp
qed

text \<open>
  Claim C8 as stated fails for the reset: after \<open>addPluginUpdated\<close> alone, the checked
  counter is \<open>0\<close>, \<open>printUpdateSummary\<close> returns early, and the updated counter and
  list keep their entry.
\<close>

theorem summary_not_reset_counterexample:
  "totalUpdated (updateSummary (printUpdateSummary
     (addPluginUpdated ''A'' ''v2.0.0'' (initial_manager ())))) = 1 \<and>
   pluginsUpdated (updateSummary (printUpdateSummary
     (addPluginUpdated ''A'' ''v2.0.0'' (initial_manager ())))) = [''A'']"
  by (simp add: printUpdateSummary_def addPluginUpdated_def initial_manager_def)

section \<open>The registry\<close>

lemma registerPlugin_registry:
  "registeredPlugins (snd (registerPlugin n v ow r f s)) =
     AList.update n (next_object s) (registeredPlugins s)"
  by (simp add: registerPlugin_def Let_def initialize_def startPeriodicChecks_def)

lemma registerPlugin_objects:
  "objects (snd (registerPlugin n v ow r f s)) =
     (objects s)(next_object s :=
        \<lparr>name = n, version = v, owner = ow, repo = r, filePath = f, needsUpdate = False,
         latestVersion = None, lastChecked = None, lastUpdated = None, error = None,
         disabled = None\<rparr>)"
  by (simp add: registerPlugin_def Let_def initialize_def startPeriodicChecks_def)

lemma getPluginInfo_registered:
  "getPluginInfo n (snd (registerPlugin n v ow r f s)) =
     Some \<lparr>name = n, version = v, owner = ow, repo = r, filePath = f, needsUpdate = False,
           latestVersion = None, lastChecked = None, lastUpdated = None, error = None,
           disabled = None\<rparr>"
  by (simp add: getPluginInfo_def registerPlugin_registry registerPlugin_objects update_conv')

lemma map_fst_update_present:
  "k \<in> fst ` set al \<Longrightarrow> map fst (AList.update k v al) = map fst al"
  by (induction al) auto

text \<open>
  Claim C9. \<open>registerPlugin\<close> followed by \<open>getPluginInfo\<close> for the same name gives the
  record just built, with \<open>needsUpdate = false\<close> and \<open>lastChecked = null\<close>. A second
  registration under the same name replaces the record: the lookup gives the second
  record, the list of names is unchanged, and where the names were distinct they stay
  distinct, with the name occurring once.
\<close>

theorem register_then_get:
  "getPluginInfo n (snd (registerPlugin n v ow r f s)) =
     Some \<lparr>name = n, version = v, owner = ow, repo = r, filePath = f, needsUpdate = False,
           latestVersion = None, lastChecked = None, lastUpdated = None, error = None,
           disabled = None\<rparr> \<and>
   getPluginInfo n (snd (registerPlugin n v' ow' r' f' (snd (registerPlugin n v ow r f s)))) =
     Some \<lparr>name = n, version = v', owner = ow', repo = r', filePath = f', needsUpdate = False,
           latestVersion = None, lastChecked = None, lastUpdated = None, error = None,
           disabled = None\<rparr> \<and>
   getAllPlugins (snd (registerPlugin n v' ow' r' f' (snd (registerPlugin n v ow r f s)))) =
     getAllPlugins (snd (registerPlugin n v ow r f s)) \<and>
   (distinct (getAllPlugins s) \<longrightarrow>
      distinct (getAllPlugins (snd (registerPlugin n v ow r f s))) \<and>
      count_list (getAllPlugins
        (snd (registerPlugin n v' ow' r' f' (snd (registerPlugin n v ow r f s))))) n = 1)"
proof (intro conjI impI)
  let ?s1 = "snd (registerPlugin n v ow r f s)"
  let ?s2 = "snd (registerPlugin n v' ow' r' f' ?s1)"
  show "getPluginInfo n ?s1 =
     Some \<lparr>name = n, version = v, owner = ow, repo = r, filePath = f, needsUpdate = False,
           latestVersion = None, lastChecked = None, lastUpdated = None, error = None,
           disabled = None\<rparr>"
    by (rule getPluginInfo_registered)
  show "getPluginInfo n ?s2 =
     Some \<lparr>name = n, version = v', owner = ow', repo = r', filePath = f', needsUpdate = False,
           latestVersion = None, lastChecked = None, lastUpdated = None, error = None,
           disabled = None\<rparr>"
    by (rule getPluginInfo_registered)
  have mem: "n \<in> fst ` set (registeredPlugins ?s1)"
    by (simp add: registerPlugin_registry dom_update)
  show same: "getAllPlugins ?s2 = getAllPlugins ?s1"
    unfolding getAllPlugins_def registerPlugin_registry[of n v' ow' r' f' ?s1]
    by (rule map_fst_update_present[OF mem])
  assume d: "distinct (getAllPlugins s)"
  then show d1: "distinct (getAllPlugins ?s1)"
    by (simp add: getAllPlugins_def registerPlugin_registry distinct_update)
  have "n \<in> set (getAllPlugins ?s1)"
    using mem by (simp add: getAllPlugins_def)
  then show "count_list (getAllPlugins ?s2) n = 1"
    unfolding same using d1 by (rule count_list_distinct[rotated])
qed

theorem register_then_get_witness:
  "distinct (getAllPlugins (initial_manager example_files)) \<and>
   map_option needsUpdate (getPluginInfo ''A'' example_manager) = Some False \<and>
   map_option lastChecked (getPluginInfo ''A'' example_manager) = Some None \<and>
   getAllPlugins (snd (registerPlugin ''A'' (Some ''v3.0.0'') ''acme'' ''plugins''
      ''/srv/plugins/a.js'' example_manager)) = [''A''] \<and>
   map_option version (getPluginInfo ''A'' (snd (registerPlugin ''A'' (Some ''v3.0.0'') ''acme''
      ''plugins'' ''/srv/plugins/a.js'' example_manager))) = Some (Some ''v3.0.0'')"
proof -
  have d: "distinct (getAllPlugins (initial_manager example_files))"
    by (simp add: getAllPlugins_def initial_manager_def)
  have one: "getAllPlugins example_manager = [''A'']"
    by (simp add: getAllPlugins_def example_manager_def registerPlugin_registry
        initial_manager_def)
  note inst = register_then_get[of "''A''" "Some ''v1.0.0''" "''acme''" "''plugins''"
      "''/srv/plugins/a.js''" "initial_manager example_files" "Some ''v3.0.0''" "''acme''"
      "''plugins''" "''/srv/plugins/a.js''"]
  show ?thesis
    using inst d one by (simp add: example_manager_def)
qed

end
